theory Spec2Isabelle
  imports Main "HOL-Library.Multiset" "HOL-Library.Sublist"
begin

section \<open>Strings\<close>

text \<open>
  Strings are sequences of bytes of their UTF-8 encoding. The program's own string
  operations that the model needs are \<open>split\<close>, \<open>join\<close>, \<open>startsWith\<close>,
  \<open>endsWith\<close> and the conversion of a number to decimal digits.
\<close>

definition nl :: string where
  "nl = [CHR 0x0A]"

text \<open>\<open>s.split(sep)\<close> for a one-character separator: the result always has at least
  one element; the empty string splits into one empty string.\<close>

fun split :: "char \<Rightarrow> string \<Rightarrow> string list" where
  "split sep [] = [[]]"
| "split sep (c # cs) =
     (if c = sep then [] # split sep cs
      else (case split sep cs of
              [] \<Rightarrow> [[c]]
            | seg # segs \<Rightarrow> (c # seg) # segs))"

text \<open>\<open>parts.join(sep)\<close>.\<close>

fun join :: "string \<Rightarrow> string list \<Rightarrow> string" where
  "join sep [] = []"
| "join sep [s] = s"
| "join sep (s # t # ts) = s @ sep @ join sep (t # ts)"

definition startsWith :: "string \<Rightarrow> string \<Rightarrow> bool" where
  "startsWith s p = (take (length p) s = p)"

definition endsWith :: "string \<Rightarrow> string \<Rightarrow> bool" where
  "endsWith s e = (length e \<le> length s \<and> drop (length s - length e) s = e)"

definition digit :: "nat \<Rightarrow> char" where
  "digit d = char_of (of_char (CHR ''0'') + d)"

fun showNat :: "nat \<Rightarrow> string" where
  "showNat n = (if n < 10 then [digit n] else showNat (n div 10) @ [digit (n mod 10)])"

declare showNat.simps [simp del]

section \<open>Sorting with a comparison function\<close>

text \<open>
  \<open>Array.prototype.sort\<close> with a comparison function is stable; when the comparison
  function is consistent the result is the one stable arrangement, which insertion from
  the right computes. An element moves in front of a later one only when the comparison
  function returns a positive number for the pair.
\<close>

fun insertBy :: "('a \<Rightarrow> 'a \<Rightarrow> int) \<Rightarrow> 'a \<Rightarrow> 'a list \<Rightarrow> 'a list" where
  "insertBy cmp x [] = [x]"
| "insertBy cmp x (y # ys) =
     (if cmp x y \<le> 0 then x # y # ys else y # insertBy cmp x ys)"

definition sortBy :: "('a \<Rightarrow> 'a \<Rightarrow> int) \<Rightarrow> 'a list \<Rightarrow> 'a list" where
  "sortBy cmp xs = foldr (insertBy cmp) xs []"

text \<open>
  \<open>String.prototype.localeCompare\<close> belongs to the runtime, not to the program: the
  functions below take it as the parameter \<open>lc\<close>. The language standard requires it to
  be a consistent comparison function, and to return zero for canonically equivalent
  strings even when they are distinguishable.
\<close>

definition consistent :: "('a \<Rightarrow> 'a \<Rightarrow> int) \<Rightarrow> bool" where
  "consistent cmp \<longleftrightarrow>
     (\<forall>a b. sgn (cmp a b) = - sgn (cmp b a)) \<and>
     (\<forall>a b c. cmp a b \<le> 0 \<longrightarrow> cmp b c \<le> 0 \<longrightarrow> cmp a c \<le> 0)"

text \<open>
  Two comparison functions for concrete runs. \<open>codeUnitCompare\<close> orders strings
  byte by byte. \<open>canonCompare\<close> does the same after composing the decomposed form of
  e-acute (\<open>e\<close>, U+0301) into its composed form (U+00E9), so that it returns zero on
  the two spellings of one name, as \<open>localeCompare\<close> does.
\<close>

fun codeUnitCompare :: "string \<Rightarrow> string \<Rightarrow> int" where
  "codeUnitCompare [] [] = 0"
| "codeUnitCompare [] (y # ys) = - 1"
| "codeUnitCompare (x # xs) [] = 1"
| "codeUnitCompare (x # xs) (y # ys) =
     (if (of_char x :: nat) < of_char y then - 1
      else if (of_char y :: nat) < of_char x then 1
      else codeUnitCompare xs ys)"

fun composeEAcute :: "string \<Rightarrow> string" where
  "composeEAcute (a # b # c # cs) =
     (if a = CHR ''e'' \<and> b = CHR 0xCC \<and> c = CHR 0x81
      then CHR 0xC3 # CHR 0xA9 # composeEAcute cs
      else a # composeEAcute (b # c # cs))"
| "composeEAcute cs = cs"

definition canonCompare :: "string \<Rightarrow> string \<Rightarrow> int" where
  "canonCompare a b = codeUnitCompare (composeEAcute a) (composeEAcute b)"

section \<open>Pages and the tree of the table of contents\<close>

record PageInfo =
  path :: string
  relativePath :: string
  title :: string
  depth :: int

text \<open>
  A tree node has a name, a path, its children in order, and a page or none. The source
  tests \<open>node.page\<close> for truthiness; a page is an object, so the test is
  \<open>page node \<noteq> None\<close>.
\<close>

datatype TreeNode =
  TreeNode (name: string) (nodePath: string) (children: "TreeNode list") (page: "PageInfo option")

definition pushChild :: "TreeNode \<Rightarrow> TreeNode \<Rightarrow> TreeNode" where
  "pushChild node child =
     TreeNode (name node) (nodePath node) (children node @ [child]) (page node)"

text \<open>The child that \<open>find\<close> returned is the first one of that name; the loop goes on
  inside that object, so its later state replaces it in the list.\<close>

fun replaceFirst :: "string \<Rightarrow> TreeNode \<Rightarrow> TreeNode list \<Rightarrow> TreeNode list" where
  "replaceFirst n new [] = []"
| "replaceFirst n new (c # cs) =
     (if name c = n then new # cs else c # replaceFirst n new cs)"

definition replaceChild :: "TreeNode \<Rightarrow> string \<Rightarrow> TreeNode \<Rightarrow> TreeNode" where
  "replaceChild node n new =
     TreeNode (name node) (nodePath node) (replaceFirst n new (children node)) (page node)"

text \<open>
  The inner \<open>parts.forEach\<close> of one page: \<open>i\<close> is the index of \<open>part\<close> in
  \<open>parts\<close>, the fourth argument holds the parts from index \<open>i\<close> on, and the result
  is the node \<open>current\<close> after the rest of the loop has run on it or below it.
\<close>

fun insertParts :: "PageInfo \<Rightarrow> string list \<Rightarrow> nat \<Rightarrow> string list \<Rightarrow> TreeNode \<Rightarrow> TreeNode" where
  "insertParts pg parts i [] current = current"
| "insertParts pg parts i (part # rest) current =
     (let isFile = (int i = int (length parts) - 1);
          fullPathSoFar = join ''/'' (take (i + 1) parts)
      in case find (\<lambda>c. name c = part) (children current) of
           None \<Rightarrow>
             (let child = TreeNode part fullPathSoFar [] (if isFile then Some pg else None)
              in if isFile then insertParts pg parts (i + 1) rest (pushChild current child)
                 else pushChild current (insertParts pg parts (i + 1) rest child))
         | Some child \<Rightarrow>
             (if isFile then insertParts pg parts (i + 1) rest current
              else replaceChild current part (insertParts pg parts (i + 1) rest child)))"

definition pathParts :: "PageInfo \<Rightarrow> string list" where
  "pathParts pg = filter (\<lambda>s. s \<noteq> []) (split (CHR ''/'') (path pg))"

definition insertPage :: "TreeNode \<Rightarrow> PageInfo \<Rightarrow> TreeNode" where
  "insertPage root pg = insertParts pg (pathParts pg) 0 (pathParts pg) root"

definition emptyRoot :: TreeNode where
  "emptyRoot = TreeNode ''Project'' [] [] None"

definition pageCompare :: "(string \<Rightarrow> string \<Rightarrow> int) \<Rightarrow> PageInfo \<Rightarrow> PageInfo \<Rightarrow> int" where
  "pageCompare lc a b = lc (path a) (path b)"

text \<open>The tree as it stands after the outer \<open>pages.forEach\<close>, on the sorted pages.\<close>

definition buildTree :: "(string \<Rightarrow> string \<Rightarrow> int) \<Rightarrow> PageInfo list \<Rightarrow> TreeNode" where
  "buildTree lc pages = foldl insertPage emptyRoot (sortBy (pageCompare lc) pages)"

section \<open>Rendering\<close>

definition nodeCompare :: "(string \<Rightarrow> string \<Rightarrow> int) \<Rightarrow> TreeNode \<Rightarrow> TreeNode \<Rightarrow> int" where
  "nodeCompare lc a b =
     (let aIsDir = (page a = None); bIsDir = (page b = None)
      in if aIsDir \<and> \<not> bIsDir then - 1
         else if \<not> aIsDir \<and> bIsDir then 1
         else lc (name a) (name b))"

definition fileItem :: "PageInfo \<Rightarrow> string" where
  \<open>fileItem pg =
     nl @
     ''        <li>'' @ nl @
     ''          <a href="'' @ path pg @ ''" class="file-link">'' @ nl @
     ''            <span class="file-icon"></span>'' @ nl @
     ''            <span>'' @ title pg @ ''</span>'' @ nl @
     ''          </a>'' @ nl @
     ''        </li>''\<close>

definition folderItem :: "TreeNode \<Rightarrow> string \<Rightarrow> string" where
  \<open>folderItem node childHtml =
     nl @
     ''        <li>'' @ nl @
     ''          <div class="folder" data-folder>'' @ nl @
     ''            <span class="folder-icon"></span>'' @ nl @
     ''            <span class="folder-name">'' @ name node @ ''</span>'' @ nl @
     ''          </div>'' @ nl @
     ''          <ul class="folder-content">'' @ nl @
     ''            '' @ childHtml @ nl @
     ''          </ul>'' @ nl @
     ''        </li>''\<close>

lemma set_insertBy: "set (insertBy cmp x xs) = insert x (set xs)"
  by (induction xs) auto

lemma set_sortBy: "set (sortBy cmp xs) = set xs"
  by (induction xs) (simp_all add: sortBy_def set_insertBy)

text \<open>
  \<open>renderNode\<close>. Its second parameter \<open>depth\<close> is passed down and never read, so
  the model leaves it out.
\<close>

function renderNode :: "(string \<Rightarrow> string \<Rightarrow> int) \<Rightarrow> TreeNode \<Rightarrow> string" where
  "renderNode lc node =
     (case page node of
        Some pg \<Rightarrow> fileItem pg
      | None \<Rightarrow>
          folderItem node
            (concat (map (renderNode lc) (sortBy (nodeCompare lc) (children node)))))"
  by pat_completeness auto
termination
proof (relation "measure (\<lambda>(lc, node). size node)")
  show "wf (measure (\<lambda>(lc, node). size node))" by simp
next
  fix lc :: "string \<Rightarrow> string \<Rightarrow> int" and node z
  assume "z \<in> set (sortBy (nodeCompare lc) (children node))"
  then have "z \<in> set (children node)" by (simp add: set_sortBy)
  then have "size z < size node"
    by (cases node) (auto simp: less_Suc_eq_le size_list_estimation')
  then show "((lc, z), (lc, node)) \<in> measure (\<lambda>(lc, node). size node)" by simp
qed

declare renderNode.simps [simp del]

definition tocHead :: string where
  \<open>tocHead =
     nl @
     ''<!doctype html>'' @ nl @
     ''<html lang="en">'' @ nl @
     ''<head>'' @ nl @
     ''  <meta charset="UTF-8" />'' @ nl @
     ''  <meta name="viewport" content="width=device-width, initial-scale=1.0" />'' @ nl @
     ''  <title>toc</title>'' @ nl @
     ''  <style>'' @ nl @
     ''    * { margin: 0; padding: 0; box-sizing: border-box; }'' @ nl @
     ''    body {'' @ nl @
     ''      font-family: -apple-system, BlinkMacSystemFont, "Segoe UI", Roboto, Oxygen, Ubuntu, Cantarell, sans-serif;'' @ nl @
     ''      background-color: #f3f4f6;'' @ nl @
     ''      padding: 2rem;'' @ nl @
     ''    }'' @ nl @
     ''    .container {'' @ nl @
     ''      max-width: 800px;'' @ nl @
     ''      margin: 0 auto;'' @ nl @
     ''      background-color: white;'' @ nl @
     ''      border-radius: 0.5rem;'' @ nl @
     ''      box-shadow: 0 4px 6px rgba(0, 0, 0, 0.1);'' @ nl @
     ''      padding: 1.5rem;'' @ nl @
     ''    }'' @ nl @
     ''    h1 {'' @ nl @
     ''      font-size: 1.5rem;'' @ nl @
     ''      font-weight: bold;'' @ nl @
     ''      margin-bottom: 1.5rem;'' @ nl @
     ''      color: #1f2937;'' @ nl @
     ''    }'' @ nl @
     ''    ul { list-style: none; }'' @ nl @
     ''    ul ul { margin-left: 1.5rem; margin-top: 0.25rem; }'' @ nl @
     ''    .folder {'' @ nl @
     ''      display: flex;'' @ nl @
     ''      align-items: center;'' @ nl @
     ''      padding: 0.5rem;'' @ nl @
     ''      cursor: pointer;'' @ nl @
     ''      border-radius: 0.25rem;'' @ nl @
     ''      user-select: none;'' @ nl @
     ''    }'' @ nl @
     ''    .folder:hover { background-color: #f3f4f6; }'' @ nl @
     ''    .folder-icon { margin-right: 0.5rem; font-size: 1rem; }'' @ nl @
     ''    .folder-icon::before { content: "'' @ [CHR 0xF0, CHR 0x9F, CHR 0x93, CHR 0x81] @ ''"; }'' @ nl @
     ''    .folder.open .folder-icon::before { content: "'' @ [CHR 0xF0, CHR 0x9F, CHR 0x93, CHR 0x82] @ ''"; }'' @ nl @
     ''    .folder-name { font-weight: 500; color: #374151; }'' @ nl @
     ''    .folder-content {'' @ nl @
     ''      max-height: 0;'' @ nl @
     ''      overflow: hidden;'' @ nl @
     ''      transition: max-height 0.3s ease-out;'' @ nl @
     ''    }'' @ nl @
     ''    .folder-content.open {'' @ nl @
     ''      max-height: 2000px;'' @ nl @
     ''      transition: max-height 0.5s ease-in;'' @ nl @
     ''    }'' @ nl @
     ''    .file-link {'' @ nl @
     ''      display: flex;'' @ nl @
     ''      align-items: center;'' @ nl @
     ''      padding: 0.5rem;'' @ nl @
     ''      text-decoration: none;'' @ nl @
     ''      color: #2563eb;'' @ nl @
     ''      border-radius: 0.25rem;'' @ nl @
     ''    }'' @ nl @
     ''    .file-link:hover {'' @ nl @
     ''      background-color: #eff6ff;'' @ nl @
     ''      color: #1d4ed8;'' @ nl @
     ''    }'' @ nl @
     ''    .file-icon { margin-right: 0.5rem; }'' @ nl @
     ''    .file-icon::before { content: "'' @ [CHR 0xF0, CHR 0x9F, CHR 0x93, CHR 0x84] @ ''"; }'' @ nl @
     ''    .total-pages {'' @ nl @
     ''      margin-top: 1rem;'' @ nl @
     ''      color: #6b7280;'' @ nl @
     ''      font-size: 0.875rem;'' @ nl @
     ''    }'' @ nl @
     ''  </style>'' @ nl @
     ''</head>'' @ nl @
     ''<body>'' @ nl @
     ''  <div class="container">'' @ nl @
     ''    <h1>Directory Tree</h1>'' @ nl @
     ''    <ul id="root">'' @ nl @
     ''      ''\<close>

definition tocMid :: string where
  \<open>tocMid =
     nl @
     ''    </ul>'' @ nl @
     ''    <p class="total-pages">Total pages: <span id="total-pages">''\<close>

definition tocTail :: string where
  \<open>tocTail =
     ''</span></p>'' @ nl @
     ''  </div>'' @ nl @
     nl @
     ''  <script>'' @ nl @
     ''    const folders = document.querySelectorAll("[data-folder]");'' @ nl @
     ''    folders.forEach((folder) => {'' @ nl @
     ''      folder.addEventListener("click", function (e) {'' @ nl @
     ''        e.stopPropagation();'' @ nl @
     ''        const content = this.nextElementSibling;'' @ nl @
     ''        if (content && content.classList.contains("folder-content")) {'' @ nl @
     ''          this.classList.toggle("open");'' @ nl @
     ''          content.classList.toggle("open");'' @ nl @
     ''        }'' @ nl @
     ''      });'' @ nl @
     ''    });'' @ nl @
     nl @
     ''    const fileLinks = document.querySelectorAll(".file-link");'' @ nl @
     ''    fileLinks.forEach((link) => {'' @ nl @
     ''      link.addEventListener("click", function (e) {'' @ nl @
     ''        // Let the browser handle navigation (since href is real)'' @ nl @
     ''        // But you can still log if you want'' @ nl @
     ''        const fileName = this.querySelector("span:last-child").textContent;'' @ nl @
     ''        console.log("Navigating to:", fileName);'' @ nl @
     ''      });'' @ nl @
     ''    });'' @ nl @
     ''  </script>'' @ nl @
     ''</body>'' @ nl @
     ''</html>''\<close>

text \<open>The rendered children of the root, in the order in which they stand in the root.\<close>

definition innerTree :: "(string \<Rightarrow> string \<Rightarrow> int) \<Rightarrow> PageInfo list \<Rightarrow> string" where
  "innerTree lc pages = concat (map (renderNode lc) (children (buildTree lc pages)))"

definition generateTocHtml :: "(string \<Rightarrow> string \<Rightarrow> int) \<Rightarrow> PageInfo list \<Rightarrow> string" where
  "generateTocHtml lc pages =
     tocHead @ innerTree lc pages @ tocMid @ showNat (length pages) @ tocTail"

section \<open>Paths\<close>

text \<open>
  The functions of the runtime's \<open>path\<close> module that the program calls, for POSIX
  paths that have no empty, \<open>.\<close> or \<open>..\<close> segment and no trailing separator (the
  paths that \<open>process.cwd\<close>, \<open>readdir\<close> and the program itself produce); the
  normalisation that the module applies to other paths is not modelled.
\<close>

definition segments :: "string \<Rightarrow> string list" where
  "segments p = filter (\<lambda>s. s \<noteq> []) (split (CHR ''/'') p)"

definition pathJoin :: "string \<Rightarrow> string \<Rightarrow> string" where
  "pathJoin a b =
     (if a = [] then b else if b = [] then a
      else if last a = CHR ''/'' then a @ b else a @ ''/'' @ b)"

fun commonPrefix :: "string list \<Rightarrow> string list \<Rightarrow> nat" where
  "commonPrefix (x # xs) (y # ys) = (if x = y then Suc (commonPrefix xs ys) else 0)"
| "commonPrefix xs ys = 0"

definition relative :: "string \<Rightarrow> string \<Rightarrow> string" where
  "relative from to =
     (let f = segments from; t = segments to; n = commonPrefix f t
      in join ''/'' (replicate (length f - n) ''..'' @ drop n t))"

definition dirname :: "string \<Rightarrow> string" where
  "dirname p =
     (case rev (split (CHR ''/'') p) of
        [] \<Rightarrow> ''.''
      | [s] \<Rightarrow> ''.''
      | s # t # ts \<Rightarrow>
          (let d = join ''/'' (rev (t # ts)) in if d = [] then ''/'' else d))"

definition basename :: "string \<Rightarrow> string \<Rightarrow> string" where
  "basename p ext =
     (let segs = segments p; b = (if segs = [] then [] else last segs)
      in if p = ext then []
         else if length ext < length b \<and> endsWith b ext
         then take (length b - length ext) b
         else b)"

section \<open>File discovery\<close>

text \<open>
  A directory entry as \<open>readdir\<close> with \<open>withFileTypes\<close> reports it: a regular file,
  a directory, or something else (a link, a socket). A directory carries what
  \<open>readdir\<close> returns for it, or nothing when reading it fails.
\<close>

datatype Dirent =
  FileEntry string
| DirEntry string "Dirent list option"
| OtherEntry string

datatype error =
  ReadDirError string
| ReadFileError string
| MkdirError string
| WriteFileError string

fun entryName :: "Dirent \<Rightarrow> string" where
  "entryName (FileEntry n) = n"
| "entryName (DirEntry n listing) = n"
| "entryName (OtherEntry n) = n"

definition skipped :: "string \<Rightarrow> bool" where
  "skipped n \<longleftrightarrow> n = ''dist'' \<or> n = ''node_modules'' \<or> startsWith n ''.''"

text \<open>
  \<open>getAllMarkdownFiles dir listing files\<close>: \<open>listing\<close> is the result of
  \<open>readdir dir\<close>, \<open>files\<close> the array that the calls share and extend.
  \<open>walkEntries\<close> is the \<open>for\<close> loop over the entries.
\<close>

fun getAllMarkdownFiles :: "string \<Rightarrow> Dirent list option \<Rightarrow> string list \<Rightarrow> error + string list"
  and walkEntries :: "string \<Rightarrow> Dirent list \<Rightarrow> string list \<Rightarrow> error + string list" where
  "getAllMarkdownFiles dir None files = Inl (ReadDirError dir)"
| "getAllMarkdownFiles dir (Some entries) files = walkEntries dir entries files"
| "walkEntries dir [] files = Inr files"
| "walkEntries dir (entry # rest) files =
     (let fullPath = pathJoin dir (entryName entry)
      in if skipped (entryName entry) then walkEntries dir rest files
         else (case entry of
                 DirEntry n listing \<Rightarrow>
                   (case getAllMarkdownFiles fullPath listing files of
                      Inl e \<Rightarrow> Inl e
                    | Inr files' \<Rightarrow> walkEntries dir rest files')
               | FileEntry n \<Rightarrow>
                   (if endsWith n ''.md'' then walkEntries dir rest (files @ [fullPath])
                    else walkEntries dir rest files)
               | OtherEntry n \<Rightarrow> walkEntries dir rest files))"

text \<open>
  \<open>fileAt entries names\<close>: following \<open>names\<close> down from a directory with the
  listing \<open>entries\<close> leads through readable directories to a regular file.
  \<open>discovered dir entries p\<close>: the path \<open>p\<close> is \<open>dir\<close> joined with such names, the
  last of which ends in \<open>.md\<close>, none of which is skipped.
\<close>

fun fileAt :: "Dirent list \<Rightarrow> string list \<Rightarrow> bool" where
  "fileAt entries [] \<longleftrightarrow> False"
| "fileAt entries [n] \<longleftrightarrow> FileEntry n \<in> set entries"
| "fileAt entries (n # m # ms) \<longleftrightarrow>
     list_ex (\<lambda>e. case e of
                     DirEntry d (Some sub) \<Rightarrow> d = n \<and> fileAt sub (m # ms)
                   | _ \<Rightarrow> False) entries"

definition discovered :: "string \<Rightarrow> Dirent list \<Rightarrow> string \<Rightarrow> bool" where
  "discovered dir entries p \<longleftrightarrow>
     (\<exists>names. names \<noteq> [] \<and> p = foldl pathJoin dir names \<and> endsWith (last names) ''.md'' \<and>
        (\<forall>n\<in>set names. n \<noteq> ''dist'' \<and> n \<noteq> ''node_modules'' \<and> \<not> startsWith n ''.'') \<and>
        fileAt entries names)"

section \<open>Page conversion\<close>

definition htmlTemplate :: "string \<Rightarrow> string \<Rightarrow> string" where
  \<open>htmlTemplate ttl content =
     ''<!DOCTYPE html>'' @ nl @
     ''<html lang="en">'' @ nl @
     ''<head>'' @ nl @
     ''    <meta charset="UTF-8">'' @ nl @
     ''    <meta name="viewport" content="width=device-width, initial-scale=1.0">'' @ nl @
     ''    <title>'' @ ttl @ ''</title>'' @ nl @
     ''    <style>'' @ nl @
     ''        body {'' @ nl @
     ''            max-width: 800px;'' @ nl @
     ''            margin: 0 auto;'' @ nl @
     ''            padding: 2rem;'' @ nl @
     ''            font-family: system-ui, -apple-system, sans-serif;'' @ nl @
     ''            line-height: 1.6;'' @ nl @
     ''            color: #333;'' @ nl @
     ''        }'' @ nl @
     ''        pre {'' @ nl @
     ''            background: #f4f4f4;'' @ nl @
     ''            padding: 1rem;'' @ nl @
     ''            border-radius: 4px;'' @ nl @
     ''            overflow-x: auto;'' @ nl @
     ''        }'' @ nl @
     ''        code {'' @ nl @
     ''            background: #f4f4f4;'' @ nl @
     ''            padding: 0.2rem 0.4rem;'' @ nl @
     ''            border-radius: 3px;'' @ nl @
     ''        }'' @ nl @
     ''        pre code {'' @ nl @
     ''            background: none;'' @ nl @
     ''            padding: 0;'' @ nl @
     ''        }'' @ nl @
     ''    </style>'' @ nl @
     ''</head>'' @ nl @
     ''<body>'' @ nl @
     ''    '' @ content @ nl @
     ''</body>'' @ nl @
     ''</html>''\<close>

text \<open>
  A text is held as its UTF-8 encoding. The title pattern \<open>/^#\s+(.+)$/m\<close> works
  on the code units of the text; \<open>characters\<close> cuts the encoding into the encodings
  of its code points, by the length that each leading byte announces, and the
  matcher runs on those. A code point beyond the basic plane is two code units,
  neither of them white space or a line terminator, and the group always runs to the
  end of its line, so the matches are the same.
\<close>

definition leadLength :: "char \<Rightarrow> nat" where
  "leadLength c =
     (let b = (of_char c :: nat)
      in if b < 0x80 then 1
         else if 0xC0 \<le> b \<and> b < 0xE0 then 2
         else if 0xE0 \<le> b \<and> b < 0xF0 then 3
         else if 0xF0 \<le> b \<and> b < 0xF8 then 4
         else 1)"

fun characters :: "string \<Rightarrow> string list" where
  "characters [] = []"
| "characters (c # cs) =
     (c # take (leadLength c - 1) cs) # characters (drop (leadLength c - 1) cs)"

text \<open>
  The line terminators of the language: U+000A, U+000D, U+2028 and U+2029. They end
  a line for \<open>^\<close> and \<open>$\<close>, and the dot does not match them.
\<close>

definition isLineTerminator :: "string \<Rightarrow> bool" where
  "isLineTerminator ch \<longleftrightarrow>
     ch = [CHR 0x0A] \<or> ch = [CHR 0x0D] \<or>
     ch = [CHR 0xE2, CHR 0x80, CHR 0xA8] \<or> ch = [CHR 0xE2, CHR 0x80, CHR 0xA9]"

text \<open>
  The class \<open>\s\<close>: the line terminators, U+0009, U+000B, U+000C, U+FEFF, and the
  space separators U+0020, U+00A0, U+1680, U+2000 to U+200A, U+202F, U+205F and
  U+3000.
\<close>

definition isSpace :: "string \<Rightarrow> bool" where
  "isSpace ch \<longleftrightarrow>
     isLineTerminator ch \<or>
     ch = [CHR 0x09] \<or> ch = [CHR 0x0B] \<or> ch = [CHR 0x0C] \<or> ch = [CHR 0x20] \<or>
     ch = [CHR 0xC2, CHR 0xA0] \<or>
     ch = [CHR 0xE1, CHR 0x9A, CHR 0x80] \<or>
     (case ch of
        [a, b, c] \<Rightarrow>
          a = CHR 0xE2 \<and> b = CHR 0x80 \<and> (0x80 :: nat) \<le> of_char c \<and> of_char c \<le> (0x8A :: nat)
      | _ \<Rightarrow> False) \<or>
     ch = [CHR 0xE2, CHR 0x80, CHR 0xAF] \<or>
     ch = [CHR 0xE2, CHR 0x81, CHR 0x9F] \<or>
     ch = [CHR 0xE3, CHR 0x80, CHR 0x80] \<or>
     ch = [CHR 0xEF, CHR 0xBB, CHR 0xBF]"

definition atLineEnd :: "string list \<Rightarrow> bool" where
  "atLineEnd rest \<longleftrightarrow> (case rest of [] \<Rightarrow> True | c # cs \<Rightarrow> isLineTerminator c)"

text \<open>\<open>(.+)$\<close> on the text \<open>rest\<close>: the group takes the longest run of characters
  that are not line terminators; a shorter run is never followed by a line end.\<close>

definition captureLine :: "string list \<Rightarrow> string list option" where
  "captureLine rest =
     (let cap = takeWhile (\<lambda>c. \<not> isLineTerminator c) rest
      in if cap \<noteq> [] \<and> atLineEnd (drop (length cap) rest) then Some cap else None)"

text \<open>\<open>\s+\<close> has taken \<open>k\<close> characters of \<open>rest\<close>; when the remainder of the pattern
  fails it gives one back, down to one character.\<close>

fun spacesThenCapture :: "nat \<Rightarrow> string list \<Rightarrow> string list option" where
  "spacesThenCapture 0 rest = None"
| "spacesThenCapture (Suc k) rest =
     (case captureLine (drop (Suc k) rest) of
        Some cap \<Rightarrow> Some cap
      | None \<Rightarrow> spacesThenCapture k rest)"

definition afterHash :: "string list \<Rightarrow> string list option" where
  "afterHash rest = spacesThenCapture (length (takeWhile isSpace rest)) rest"

text \<open>The start positions from left to right; \<open>atStart\<close> says whether \<open>^\<close> holds at
  the current one (the start of the text, or just after a line terminator).\<close>

fun scanH1 :: "bool \<Rightarrow> string list \<Rightarrow> string list option" where
  "scanH1 atStart [] = None"
| "scanH1 atStart (c # cs) =
     (if atStart \<and> c = ''#''
      then (case afterHash cs of
              Some cap \<Rightarrow> Some cap
            | None \<Rightarrow> scanH1 (isLineTerminator c) cs)
      else scanH1 (isLineTerminator c) cs)"

text \<open>The text of the group of the first match, if the pattern matches.\<close>

definition h1Match :: "string \<Rightarrow> string option" where
  "h1Match mdContent = map_option concat (scanH1 True (characters mdContent))"

definition pageTitle :: "string \<Rightarrow> string \<Rightarrow> string" where
  "pageTitle mdPath mdContent =
     (case h1Match mdContent of Some cap \<Rightarrow> cap | None \<Rightarrow> basename mdPath ''.md'')"

text \<open>
  The pattern read as a description of the matched text, a list of characters.
  \<open>lineMatch rest ws cap post\<close> is \<open>\s+(.+)$\<close> on \<open>rest\<close>: white space \<open>ws\<close>, at
  least one character; the group \<open>cap\<close>, at least one character and no line
  terminator; then the end of a line. \<open>h1MatchAt src pre ws cap post\<close> is a match of
  the whole pattern in \<open>src\<close> that starts after \<open>pre\<close>, at the start of a line, with
  \<open>#\<close>. \<open>h1MatchFrom\<close> is the same for a text that follows some other text, of
  which \<open>atStart\<close> says whether it ended a line.
\<close>

definition lineMatch :: "string list \<Rightarrow> string list \<Rightarrow> string list \<Rightarrow> string list \<Rightarrow> bool" where
  "lineMatch rest ws cap post \<longleftrightarrow>
     rest = ws @ cap @ post \<and>
     ws \<noteq> [] \<and> (\<forall>c\<in>set ws. isSpace c) \<and>
     cap \<noteq> [] \<and> (\<forall>c\<in>set cap. \<not> isLineTerminator c) \<and>
     atLineEnd post"

definition lineStart :: "bool \<Rightarrow> string list \<Rightarrow> bool" where
  "lineStart atStart pre \<longleftrightarrow> (if pre = [] then atStart else isLineTerminator (last pre))"

definition h1MatchFrom ::
  "bool \<Rightarrow> string list \<Rightarrow> string list \<Rightarrow> string list \<Rightarrow> string list \<Rightarrow> string list \<Rightarrow> bool" where
  "h1MatchFrom atStart src pre ws cap post \<longleftrightarrow>
     lineStart atStart pre \<and> (\<exists>rest. src = pre @ ''#'' # rest \<and> lineMatch rest ws cap post)"

definition h1MatchAt ::
  "string list \<Rightarrow> string list \<Rightarrow> string list \<Rightarrow> string list \<Rightarrow> string list \<Rightarrow> bool" where
  "h1MatchAt src pre ws cap post \<longleftrightarrow> h1MatchFrom True src pre ws cap post"

text \<open>\<open>relativePath.replace(/\.md$/, ".html")\<close>.\<close>

definition replaceMdExt :: "string \<Rightarrow> string" where
  "replaceMdExt p =
     (if endsWith p ''.md'' then take (length p - 3) p @ ''.html'' else p)"

text \<open>
  The file system as the program sees it: the listing of the source directory, the
  text files by path, the directories made, and the paths at which making a
  directory or writing a file fails. The content of a file is the text that
  \<open>readFile\<close> with \<open>utf-8\<close> returns for it and \<open>writeFile\<close> takes, held as
  its UTF-8 encoding. Console output is not modelled.
\<close>

record World =
  tree :: "Dirent list option"
  files :: "string \<Rightarrow> string option"
  dirs :: "string set"
  failing :: "string set"

definition readFile :: "World \<Rightarrow> string \<Rightarrow> error + string" where
  "readFile w p = (case files w p of None \<Rightarrow> Inl (ReadFileError p) | Some text \<Rightarrow> Inr text)"

definition mkdir :: "World \<Rightarrow> string \<Rightarrow> error + World" where
  "mkdir w d = (if d \<in> failing w then Inl (MkdirError d) else Inr (w\<lparr>dirs := insert d (dirs w)\<rparr>))"

definition writeFile :: "World \<Rightarrow> string \<Rightarrow> string \<Rightarrow> error + World" where
  "writeFile w p text =
     (if p \<in> failing w then Inl (WriteFileError p) else Inr (w\<lparr>files := (files w)(p \<mapsto> text)\<rparr>))"

text \<open>
  \<open>convertMarkdownToHtml\<close>. \<open>marked\<close> is the external renderer, \<open>cwd\<close> the working
  directory (\<open>SRC_DIR\<close>); \<open>DIST_DIR\<close> is \<open>dist\<close> below it.
\<close>

definition DIST_DIR :: "string \<Rightarrow> string" where
  "DIST_DIR cwd = pathJoin cwd ''dist''"

definition convertMarkdownToHtml ::
  "(string \<Rightarrow> string) \<Rightarrow> string \<Rightarrow> World \<Rightarrow> string \<Rightarrow> error + (PageInfo \<times> World)" where
  "convertMarkdownToHtml marked cwd w mdPath =
     (case readFile w mdPath of
        Inl e \<Rightarrow> Inl e
      | Inr mdContent \<Rightarrow>
          (let htmlContent = marked mdContent;
               relPath = relative cwd mdPath;
               htmlPath = pathJoin (DIST_DIR cwd) (replaceMdExt relPath);
               outputDir = dirname htmlPath
           in case mkdir w outputDir of
                Inl e \<Rightarrow> Inl e
              | Inr w1 \<Rightarrow>
                  (let ttl = pageTitle mdPath mdContent;
                       dpt = int (length (split (CHR ''/'') relPath)) - 1;
                       html = htmlTemplate ttl htmlContent
                   in case writeFile w1 htmlPath html of
                        Inl e \<Rightarrow> Inl e
                      | Inr w2 \<Rightarrow>
                          Inr (\<lparr>path = relative (DIST_DIR cwd) htmlPath,
                                relativePath = relPath, title = ttl, depth = dpt\<rparr>, w2))))"

text \<open>The output path that \<open>convertMarkdownToHtml\<close> computes for a source path.\<close>

definition htmlPathOf :: "string \<Rightarrow> string \<Rightarrow> string" where
  "htmlPathOf cwd mdPath = pathJoin (DIST_DIR cwd) (replaceMdExt (relative cwd mdPath))"

section \<open>The build\<close>

text \<open>
  The conversions of \<open>Promise.all\<close> are run one after the other, in the order of the
  discovered files, and the first failure ends the build.
\<close>

fun convertAll ::
  "(string \<Rightarrow> string) \<Rightarrow> string \<Rightarrow> World \<Rightarrow> string list \<Rightarrow> error + (PageInfo list \<times> World)" where
  "convertAll marked cwd w [] = Inr ([], w)"
| "convertAll marked cwd w (f # fs) =
     (case convertMarkdownToHtml marked cwd w f of
        Inl e \<Rightarrow> Inl e
      | Inr (pg, w1) \<Rightarrow>
          (case convertAll marked cwd w1 fs of
             Inl e \<Rightarrow> Inl e
           | Inr (pgs, w2) \<Rightarrow> Inr (pg # pgs, w2)))"

definition build ::
  "(string \<Rightarrow> string) \<Rightarrow> (string \<Rightarrow> string \<Rightarrow> int) \<Rightarrow> string \<Rightarrow> World \<Rightarrow> error + World" where
  "build marked lc cwd w =
     (case mkdir w (DIST_DIR cwd) of
        Inl e \<Rightarrow> Inl e
      | Inr w1 \<Rightarrow>
          (case getAllMarkdownFiles cwd (tree w1) [] of
             Inl e \<Rightarrow> Inl e
           | Inr mdFiles \<Rightarrow>
               if length mdFiles = 0 then Inr w1
               else (case convertAll marked cwd w1 mdFiles of
                       Inl e \<Rightarrow> Inl e
                     | Inr (pages, w2) \<Rightarrow>
                         writeFile w2 (pathJoin (DIST_DIR cwd) ''toc.html'')
                           (generateTocHtml lc pages))))"

section \<open>Shape of the tree\<close>

text \<open>
  A directory node has no page; a file node has a page and no children. \<open>oneKind\<close>
  says that every node of a tree is exactly one of the two, \<open>namesDistinct\<close> that
  the children of every node have pairwise distinct names.
\<close>

definition isDirectoryNode :: "TreeNode \<Rightarrow> bool" where
  "isDirectoryNode node \<longleftrightarrow> page node = None"

definition isFileNode :: "TreeNode \<Rightarrow> bool" where
  "isFileNode node \<longleftrightarrow> page node \<noteq> None \<and> children node = []"

fun oneKind :: "TreeNode \<Rightarrow> bool" where
  "oneKind (TreeNode n p cs pg) \<longleftrightarrow>
     (isDirectoryNode (TreeNode n p cs pg) \<noteq> isFileNode (TreeNode n p cs pg)) \<and>
     (\<forall>c\<in>set cs. oneKind c)"

fun namesDistinct :: "TreeNode \<Rightarrow> bool" where
  "namesDistinct (TreeNode n p cs pg) \<longleftrightarrow>
     distinct (map name cs) \<and> (\<forall>c\<in>set cs. namesDistinct c)"

text \<open>
  For the proofs: in \<open>tracked P pre node\<close>, \<open>pre\<close> is the list of names from the
  root down to \<open>node\<close>, and \<open>P\<close> holds the part lists of the pages inserted so
  far; a node with a page has no children and stands at the part list of a page.
\<close>

fun tracked :: "string list set \<Rightarrow> string list \<Rightarrow> TreeNode \<Rightarrow> bool" where
  "tracked P pre (TreeNode n p cs pg) \<longleftrightarrow>
     (pg \<noteq> None \<longrightarrow> cs = [] \<and> pre \<in> P) \<and>
     (\<forall>c\<in>set cs. tracked P (pre @ [name c]) c)"

section \<open>Concrete inputs\<close>

text \<open>A working directory with one markdown file two directories deep.\<close>

definition notesWorld :: World where
  "notesWorld =
     \<lparr>tree = Some [DirEntry ''x'' (Some [DirEntry ''y'' (Some [FileEntry ''z.md''])])],
      files = [''/home/u/notes/x/y/z.md'' \<mapsto> ''# Hello World'' @ nl @ ''Body text''],
      dirs = {}, failing = {}\<rparr>"

text \<open>A working directory whose markdown files all lie in skipped directories.\<close>

definition bareWorld :: World where
  "bareWorld =
     \<lparr>tree = Some [FileEntry ''notes.txt'',
                   DirEntry ''dist'' (Some [FileEntry ''old.md'']),
                   DirEntry ''node_modules'' (Some [DirEntry ''pkg'' (Some [FileEntry ''README.md''])]),
                   DirEntry ''.git'' None,
                   OtherEntry ''link.md''],
      files = Map.empty, dirs = {}, failing = {}\<rparr>"

text \<open>Pages for the table of contents.\<close>

definition pageB :: PageInfo where
  "pageB = \<lparr>path = ''a/b.html'', relativePath = ''a/b.md'', title = ''B'', depth = 1\<rparr>"

definition pageC :: PageInfo where
  "pageC = \<lparr>path = ''a/c.html'', relativePath = ''a/c.md'', title = ''C'', depth = 1\<rparr>"

definition pageD :: PageInfo where
  "pageD = \<lparr>path = ''d.html'', relativePath = ''d.md'', title = ''D'', depth = 0\<rparr>"

definition pageA :: PageInfo where
  "pageA = \<lparr>path = ''a.html'', relativePath = ''a.md'', title = ''A'', depth = 0\<rparr>"

definition pageBC :: PageInfo where
  "pageBC = \<lparr>path = ''b/c.html'', relativePath = ''b/c.md'', title = ''C'', depth = 1\<rparr>"

text \<open>Two pages, the path of the first being a directory on the path of the second.\<close>

definition pageAH :: PageInfo where
  "pageAH = \<lparr>path = ''a.html'', relativePath = ''a.md'', title = ''A'', depth = 0\<rparr>"

definition pageAHB :: PageInfo where
  "pageAHB =
     \<lparr>path = ''a.html/b.html'', relativePath = ''a.html/b.md'', title = ''B'', depth = 1\<rparr>"

text \<open>A page with the empty output path.\<close>

definition pageEmpty :: PageInfo where
  "pageEmpty = \<lparr>path = [], relativePath = [], title = ''E'', depth = 0\<rparr>"

text \<open>Two pages whose names are the composed and the decomposed spelling of one
  name, which a file system can hold side by side.\<close>

definition pageComposed :: PageInfo where
  "pageComposed =
     \<lparr>path = [CHR 0xC3, CHR 0xA9] @ ''.html'', relativePath = [CHR 0xC3, CHR 0xA9] @ ''.md'',
      title = ''composed'', depth = 0\<rparr>"

definition pageDecomposed :: PageInfo where
  "pageDecomposed =
     \<lparr>path = [CHR ''e'', CHR 0xCC, CHR 0x81] @ ''.html'',
      relativePath = [CHR ''e'', CHR 0xCC, CHR 0x81] @ ''.md'',
      title = ''decomposed'', depth = 0\<rparr>"

text \<open>A source directory with markdown files inside and outside skipped directories.\<close>

definition mixedTree :: "Dirent list" where
  "mixedTree =
     [FileEntry ''todo.txt'',
      DirEntry ''dist'' (Some [FileEntry ''old.md'']),
      DirEntry ''x'' (Some [DirEntry ''.cache'' (Some [FileEntry ''tmp.md'']),
                            DirEntry ''y'' (Some [FileEntry ''z.md'', FileEntry ''z.png''])]),
      DirEntry ''node_modules'' (Some [FileEntry ''README.md'']),
      FileEntry ''index.md'']"

section \<open>Depth of a page\<close>

lemma split_nonempty: "split sep s \<noteq> []"
  by (induction s) (auto split: list.splits)

lemma length_split: "length (split sep s) = Suc (count_list s sep)"
  by (induction s) (auto split: list.splits simp: split_nonempty)

lemma convert_fields:
  assumes "convertMarkdownToHtml marked cwd w mdPath = Inr (pg, w')"
  shows "relativePath pg = relative cwd mdPath"
    and "depth pg = int (length (split (CHR ''/'') (relative cwd mdPath))) - 1"
    and "title pg = pageTitle mdPath (the (files w mdPath))"
  using assms
  by (auto simp: convertMarkdownToHtml_def readFile_def Let_def split: sum.splits option.splits)

lemma notes_conversion:
  "\<exists>pg w'. convertMarkdownToHtml marked ''/home/u/notes'' notesWorld ''/home/u/notes/x/y/z.md''
             = Inr (pg, w') \<and> relativePath pg = ''x/y/z.md''"
  by (simp add: convertMarkdownToHtml_def notesWorld_def readFile_def mkdir_def writeFile_def
      Let_def relative_def segments_def)

text \<open>
  C7. Whenever a conversion succeeds, the depth in the page record is the number of
  pieces into which \<open>/\<close> splits the source-relative path, minus one, which is the
  number of separators in that path.
\<close>

theorem depth_is_segments_minus_one:
  assumes "convertMarkdownToHtml marked cwd w mdPath = Inr (pg, w')"
  shows "relativePath pg = relative cwd mdPath \<and>
         depth pg = int (length (split (CHR ''/'') (relativePath pg))) - 1 \<and>
         depth pg = int (count_list (relativePath pg) (CHR ''/''))"
  using convert_fields(1,2) [OF assms] by (simp add: length_split)

theorem depth_of_x_y_z:
  "\<exists>pg w'. convertMarkdownToHtml id ''/home/u/notes'' notesWorld ''/home/u/notes/x/y/z.md''
             = Inr (pg, w') \<and> relativePath pg = ''x/y/z.md'' \<and> depth pg = 2"
proof -
  obtain pg w' where
    run: "convertMarkdownToHtml id ''/home/u/notes'' notesWorld ''/home/u/notes/x/y/z.md''
            = Inr (pg, w')"
    and rel: "relativePath pg = ''x/y/z.md''"
    using notes_conversion by blast
  from depth_is_segments_minus_one [OF run] rel have "depth pg = 2" by simp
  with run rel show ?thesis by blast
qed

section \<open>A build without markdown files\<close>

text \<open>
  C6. When the output directory has been made and discovery returns no file, the
  build ends successfully in the world as it stood after that first step: no file is
  written, and neither the renderer nor the comparison function is consulted.
\<close>

theorem build_without_markdown_files:
  assumes "mkdir w (DIST_DIR cwd) = Inr w1"
    and "getAllMarkdownFiles cwd (tree w1) [] = Inr []"
  shows "build marked lc cwd w = Inr w1 \<and> files w1 = files w"
  using assms by (auto simp: build_def mkdir_def split: if_splits)

theorem build_of_bare_directory:
  "build id codeUnitCompare ''/home/u/bare'' bareWorld
     = Inr (bareWorld\<lparr>dirs := {''/home/u/bare/dist''}\<rparr>) \<and>
   files (bareWorld\<lparr>dirs := {''/home/u/bare/dist''}\<rparr>) = files bareWorld"
proof -
  have made: "mkdir bareWorld (DIST_DIR ''/home/u/bare'')
                = Inr (bareWorld\<lparr>dirs := {''/home/u/bare/dist''}\<rparr>)"
    by (simp add: mkdir_def bareWorld_def DIST_DIR_def pathJoin_def)
  have none: "getAllMarkdownFiles ''/home/u/bare''
                (tree (bareWorld\<lparr>dirs := {''/home/u/bare/dist''}\<rparr>)) [] = Inr []"
    by (simp add: bareWorld_def skipped_def startsWith_def endsWith_def pathJoin_def)
  from build_without_markdown_files [OF made none, of id codeUnitCompare] show ?thesis .
qed

section \<open>Properties of sorting\<close>

lemma consistentD:
  assumes "consistent cmp"
  shows "cmp a b \<le> 0 \<Longrightarrow> cmp b c \<le> 0 \<Longrightarrow> cmp a c \<le> 0"
    and "\<not> cmp a b \<le> 0 \<Longrightarrow> cmp b a \<le> 0"
    and "cmp a b < 0 \<longleftrightarrow> cmp b a > 0"
    and "cmp a b = 0 \<longleftrightarrow> cmp b a = 0"
proof -
  have s: "sgn (cmp x y) = - sgn (cmp y x)" for x y
    using assms unfolding consistent_def by blast
  show "cmp a b \<le> 0 \<Longrightarrow> cmp b c \<le> 0 \<Longrightarrow> cmp a c \<le> 0"
    using assms unfolding consistent_def by blast
  show "\<not> cmp a b \<le> 0 \<Longrightarrow> cmp b a \<le> 0"
    using s [of a b] by (auto simp: sgn_if split: if_splits)
  show "cmp a b < 0 \<longleftrightarrow> cmp b a > 0"
    using s [of a b] by (auto simp: sgn_if split: if_splits)
  show "cmp a b = 0 \<longleftrightarrow> cmp b a = 0"
    using s [of a b] by (auto simp: sgn_if split: if_splits)
qed

lemma mset_insertBy: "mset (insertBy cmp x xs) = add_mset x (mset xs)"
  by (induction xs) auto

lemma mset_sortBy: "mset (sortBy cmp xs) = mset xs"
  by (induction xs) (simp_all add: sortBy_def mset_insertBy)

lemma length_sortBy: "length (sortBy cmp xs) = length xs"
  using mset_sortBy [of cmp xs] by (metis size_mset)

lemma sorted_insertBy:
  assumes "consistent cmp" and "sorted_wrt (\<lambda>a b. cmp a b \<le> 0) xs"
  shows "sorted_wrt (\<lambda>a b. cmp a b \<le> 0) (insertBy cmp x xs)"
  using assms(2)
proof (induction xs)
  case Nil
  then show ?case by simp
next
  case (Cons y ys)
  show ?case
  proof (cases "cmp x y \<le> 0")
    case True
    with Cons.prems consistentD(1) [OF assms(1)] show ?thesis by auto
  next
    case False
    then have "cmp y x \<le> 0" by (rule consistentD(2) [OF assms(1)])
    with False Cons show ?thesis by (auto simp: set_insertBy)
  qed
qed

lemma sorted_sortBy:
  assumes "consistent cmp"
  shows "sorted_wrt (\<lambda>a b. cmp a b \<le> 0) (sortBy cmp xs)"
proof (induction xs)
  case Nil
  then show ?case by (simp add: sortBy_def)
next
  case (Cons x xs)
  then show ?case using sorted_insertBy [OF assms] by (simp add: sortBy_def)
qed

lemma sorted_wrt_unique:
  assumes "sorted_wrt le xs" and "sorted_wrt le ys" and "mset xs = mset ys"
    and "\<And>x y. x \<in> set xs \<Longrightarrow> y \<in> set xs \<Longrightarrow> le x y \<Longrightarrow> le y x \<Longrightarrow> x = y"
  shows "xs = ys"
  using assms
proof (induction xs arbitrary: ys)
  case Nil
  then show ?case by simp
next
  case (Cons x xs)
  from Cons.prems(3) obtain y ys' where ys: "ys = y # ys'" by (cases ys) auto
  have sets: "set (x # xs) = set ys" using Cons.prems(3) by (metis mset_eq_setD)
  have "x = y"
  proof (rule ccontr)
    assume ne: "x \<noteq> y"
    from sets ys ne have "x \<in> set ys'" and "y \<in> set xs" by auto
    with Cons.prems(1,2) ys have "le y x" and "le x y" by auto
    with Cons.prems(4) [of x y] \<open>y \<in> set xs\<close> ne show False by auto
  qed
  with Cons.prems ys have "xs = ys'"
    by (intro Cons.IH) auto
  with \<open>x = y\<close> ys show ?case by simp
qed

lemma sortBy_permutation:
  assumes "consistent cmp" and "mset xs = mset ys"
    and "\<And>x y. x \<in> set xs \<Longrightarrow> y \<in> set xs \<Longrightarrow> cmp x y = 0 \<Longrightarrow> x = y"
  shows "sortBy cmp xs = sortBy cmp ys"
proof (rule sorted_wrt_unique [where le = "\<lambda>a b. cmp a b \<le> 0"])
  show "sorted_wrt (\<lambda>a b. cmp a b \<le> 0) (sortBy cmp xs)" by (rule sorted_sortBy [OF assms(1)])
  show "sorted_wrt (\<lambda>a b. cmp a b \<le> 0) (sortBy cmp ys)" by (rule sorted_sortBy [OF assms(1)])
  show "mset (sortBy cmp xs) = mset (sortBy cmp ys)" by (simp add: mset_sortBy assms(2))
next
  fix x y
  assume "x \<in> set (sortBy cmp xs)" "y \<in> set (sortBy cmp xs)" "cmp x y \<le> 0" "cmp y x \<le> 0"
  then have "x \<in> set xs" "y \<in> set xs" "cmp x y = 0"
    using consistentD(3) [OF assms(1), of x y] by (auto simp: set_sortBy)
  then show "x = y" by (rule assms(3))
qed

lemma insertBy_front: "(\<forall>z\<in>set zs. cmp x z \<le> 0) \<Longrightarrow> insertBy cmp x zs = x # zs"
  by (cases zs) auto

lemma filter_insertBy:
  assumes "consistent cmp" and "sorted_wrt (\<lambda>a b. cmp a b \<le> 0) xs"
  shows "filter P (insertBy cmp x xs) =
         (if P x then insertBy cmp x (filter P xs) else filter P xs)"
  using assms(2)
proof (induction xs)
  case Nil
  then show ?case by simp
next
  case (Cons y ys)
  show ?case
  proof (cases "cmp x y \<le> 0")
    case True
    have "\<forall>z\<in>set (filter P ys). cmp x z \<le> 0"
      using Cons.prems True consistentD(1) [OF assms(1), of x y] by auto
    then have "insertBy cmp x (filter P ys) = x # filter P ys" by (rule insertBy_front)
    with True show ?thesis by simp
  next
    case False
    with Cons show ?thesis by simp
  qed
qed

lemma filter_sortBy:
  assumes "consistent cmp"
  shows "filter P (sortBy cmp xs) = sortBy cmp (filter P xs)"
proof (induction xs)
  case Nil
  then show ?case by (simp add: sortBy_def)
next
  case (Cons x xs)
  have "filter P (insertBy cmp x (sortBy cmp xs)) =
        (if P x then insertBy cmp x (filter P (sortBy cmp xs)) else filter P (sortBy cmp xs))"
    by (rule filter_insertBy [OF assms sorted_sortBy [OF assms]])
  with Cons show ?case by (simp add: sortBy_def)
qed

lemma codeUnitCompare_sgn: "sgn (codeUnitCompare a b) = - sgn (codeUnitCompare b a)"
  by (induction a b rule: codeUnitCompare.induct) auto

lemma codeUnitCompare_trans:
  "codeUnitCompare a b \<le> 0 \<Longrightarrow> codeUnitCompare b c \<le> 0 \<Longrightarrow> codeUnitCompare a c \<le> 0"
proof (induction a arbitrary: b c)
  case Nil
  then show ?case by (cases c) auto
next
  case (Cons x xs)
  then obtain y ys where b: "b = y # ys" by (cases b) auto
  with Cons.prems obtain z zs where c: "c = z # zs" by (cases c) auto
  from Cons.prems Cons.IH [of ys zs] show ?case
    unfolding b c by (auto split: if_splits)
qed

lemma consistent_codeUnitCompare: "consistent codeUnitCompare"
  unfolding consistent_def using codeUnitCompare_sgn codeUnitCompare_trans by blast

lemma consistent_canonCompare: "consistent canonCompare"
  unfolding consistent_def canonCompare_def
  using codeUnitCompare_sgn codeUnitCompare_trans by blast

lemma consistent_pageCompare: "consistent lc \<Longrightarrow> consistent (pageCompare lc)"
  unfolding consistent_def pageCompare_def by blast

section \<open>The tree of three pages\<close>

lemma insert_three:
  assumes "path pb = ''a/b.html''" "path pc = ''a/c.html''" "path pd = ''d.html''"
  shows "foldl insertPage emptyRoot [pb, pc, pd] =
     TreeNode ''Project'' []
       [TreeNode ''a'' ''a''
          [TreeNode ''b.html'' ''a/b.html'' [] (Some pb),
           TreeNode ''c.html'' ''a/c.html'' [] (Some pc)] None,
        TreeNode ''d.html'' ''d.html'' [] (Some pd)] None"
  using assms
  by (simp add: insertPage_def pathParts_def emptyRoot_def pushChild_def replaceChild_def)

lemma sort_three:
  assumes "consistent lc"
    and "lc ''a/b.html'' ''a/c.html'' < 0" and "lc ''a/c.html'' ''d.html'' < 0"
    and "path pb = ''a/b.html''" "path pc = ''a/c.html''" "path pd = ''d.html''"
    and "mset pages = {#pb, pc, pd#}"
  shows "sortBy (pageCompare lc) pages = [pb, pc, pd]"
proof -
  have bd: "lc ''a/b.html'' ''d.html'' \<le> 0"
    using consistentD(1) [OF assms(1), of "''a/b.html''" "''a/c.html''" "''d.html''"] assms(2,3)
    by simp
  have ne: "lc ''a/b.html'' ''d.html'' \<noteq> 0"
  proof
    assume z: "lc ''a/b.html'' ''d.html'' = 0"
    then have "lc ''d.html'' ''a/b.html'' \<le> 0"
      using consistentD(4) [OF assms(1), of "''a/b.html''" "''d.html''"] by simp
    then have "lc ''a/c.html'' ''a/b.html'' \<le> 0"
      using consistentD(1) [OF assms(1), of "''a/c.html''" "''d.html''" "''a/b.html''"] assms(3)
      by simp
    with assms(2) consistentD(3) [OF assms(1), of "''a/b.html''" "''a/c.html''"]
    show False by simp
  qed
  have sorted: "sortBy (pageCompare lc) [pb, pc, pd] = [pb, pc, pd]"
    using assms(2-6) by (simp add: sortBy_def pageCompare_def)
  have "sortBy (pageCompare lc) [pb, pc, pd] = sortBy (pageCompare lc) pages"
  proof (rule sortBy_permutation [OF consistent_pageCompare [OF assms(1)]])
    show "mset [pb, pc, pd] = mset pages" using assms(7) by simp
  next
    fix x y
    assume "x \<in> set [pb, pc, pd]" "y \<in> set [pb, pc, pd]" "pageCompare lc x y = 0"
    then show "x = y"
      using assms(2-6) ne consistentD(4) [OF assms(1), of "''a/b.html''" "''a/c.html''"]
        consistentD(4) [OF assms(1), of "''a/c.html''" "''d.html''"]
        consistentD(4) [OF assms(1), of "''a/b.html''" "''d.html''"]
      by (auto simp: pageCompare_def)
  qed
  with sorted show ?thesis by simp
qed

text \<open>
  C2. For the pages with the output paths \<open>a/b.html\<close>, \<open>a/c.html\<close> and
  \<open>d.html\<close>, given in any order, and a consistent comparison function that orders
  these three paths as written, the tree has one root with two children, the directory
  \<open>a\<close> holding the file nodes \<open>b.html\<close> and \<open>c.html\<close>, and the file node
  \<open>d.html\<close>. The rendered list is the folder item of \<open>a\<close> followed by the file
  item of \<open>d.html\<close>; it is given as the text that is written, in which the folder
  name \<open>a\<close> stands before the link to \<open>d.html\<close>.
\<close>

theorem tree_of_three_pages:
  assumes "consistent lc"
    and "lc ''a/b.html'' ''a/c.html'' < 0" and "lc ''a/c.html'' ''d.html'' < 0"
    and "path pb = ''a/b.html''" "path pc = ''a/c.html''" "path pd = ''d.html''"
    and "mset pages = {#pb, pc, pd#}"
  shows \<open>buildTree lc pages =
           TreeNode ''Project'' []
             [TreeNode ''a'' ''a''
                [TreeNode ''b.html'' ''a/b.html'' [] (Some pb),
                 TreeNode ''c.html'' ''a/c.html'' [] (Some pc)] None,
              TreeNode ''d.html'' ''d.html'' [] (Some pd)] None \<and>
         innerTree lc pages =
           folderItem (TreeNode ''a'' ''a''
                [TreeNode ''b.html'' ''a/b.html'' [] (Some pb),
                 TreeNode ''c.html'' ''a/c.html'' [] (Some pc)] None)
             (concat (map (renderNode lc)
                (sortBy (nodeCompare lc)
                   [TreeNode ''b.html'' ''a/b.html'' [] (Some pb),
                    TreeNode ''c.html'' ''a/c.html'' [] (Some pc)])))
           @ fileItem pd \<and>
         innerTree lc pages =
           ''\<newline>        <li>\<newline>          <div class="folder" data-folder>\<newline>'' @
           ''            <span class="folder-icon"></span>\<newline>'' @
           ''            <span class="folder-name">a</span>\<newline>'' @
           ''          </div>\<newline>          <ul class="folder-content">\<newline>'' @
           ''            '' @
           (if lc ''b.html'' ''c.html'' \<le> 0
            then
               ''\<newline>        <li>\<newline>'' @
               ''          <a href="a/b.html" class="file-link">\<newline>'' @
               ''            <span class="file-icon"></span>\<newline>'' @
               ''            <span>'' @
               title pb @
               ''</span>\<newline>          </a>\<newline>        </li>'' @
               ''\<newline>        <li>\<newline>'' @
               ''          <a href="a/c.html" class="file-link">\<newline>'' @
               ''            <span class="file-icon"></span>\<newline>'' @
               ''            <span>'' @
               title pc @
               ''</span>\<newline>          </a>\<newline>        </li>''
            else
               ''\<newline>        <li>\<newline>'' @
               ''          <a href="a/c.html" class="file-link">\<newline>'' @
               ''            <span class="file-icon"></span>\<newline>'' @
               ''            <span>'' @
               title pc @
               ''</span>\<newline>          </a>\<newline>        </li>'' @
               ''\<newline>        <li>\<newline>'' @
               ''          <a href="a/b.html" class="file-link">\<newline>'' @
               ''            <span class="file-icon"></span>\<newline>'' @
               ''            <span>'' @
               title pb @
               ''</span>\<newline>          </a>\<newline>        </li>'') @
           ''\<newline>          </ul>\<newline>        </li>\<newline>        <li>\<newline>'' @
           ''          <a href="d.html" class="file-link">\<newline>'' @
           ''            <span class="file-icon"></span>\<newline>'' @
           ''            <span>'' @
           title pd @
           ''</span>\<newline>          </a>\<newline>        </li>'' \<and>
         (\<exists>before between after.
            innerTree lc pages =
              before @ ''<span class="folder-name">a</span>'' @ between @
              ''<a href="d.html" class="file-link">'' @ after)\<close>
proof -
  have tree: "buildTree lc pages =
           TreeNode ''Project'' []
             [TreeNode ''a'' ''a''
                [TreeNode ''b.html'' ''a/b.html'' [] (Some pb),
                 TreeNode ''c.html'' ''a/c.html'' [] (Some pc)] None,
              TreeNode ''d.html'' ''d.html'' [] (Some pd)] None"
    unfolding buildTree_def sort_three [OF assms] by (rule insert_three [OF assms(4-6)])
  have folded: "innerTree lc pages =
           folderItem (TreeNode ''a'' ''a''
                [TreeNode ''b.html'' ''a/b.html'' [] (Some pb),
                 TreeNode ''c.html'' ''a/c.html'' [] (Some pc)] None)
             (concat (map (renderNode lc)
                (sortBy (nodeCompare lc)
                   [TreeNode ''b.html'' ''a/b.html'' [] (Some pb),
                    TreeNode ''c.html'' ''a/c.html'' [] (Some pc)])))
           @ fileItem pd"
    unfolding innerTree_def tree
    by (simp add: renderNode.simps [of lc "TreeNode a b c d" for a b c d])
  have written: \<open>innerTree lc pages =
           ''\<newline>        <li>\<newline>          <div class="folder" data-folder>\<newline>'' @
           ''            <span class="folder-icon"></span>\<newline>'' @
           ''            <span class="folder-name">a</span>\<newline>'' @
           ''          </div>\<newline>          <ul class="folder-content">\<newline>'' @
           ''            '' @
           (if lc ''b.html'' ''c.html'' \<le> 0
            then
               ''\<newline>        <li>\<newline>'' @
               ''          <a href="a/b.html" class="file-link">\<newline>'' @
               ''            <span class="file-icon"></span>\<newline>'' @
               ''            <span>'' @
               title pb @
               ''</span>\<newline>          </a>\<newline>        </li>'' @
               ''\<newline>        <li>\<newline>'' @
               ''          <a href="a/c.html" class="file-link">\<newline>'' @
               ''            <span class="file-icon"></span>\<newline>'' @
               ''            <span>'' @
               title pc @
               ''</span>\<newline>          </a>\<newline>        </li>''
            else
               ''\<newline>        <li>\<newline>'' @
               ''          <a href="a/c.html" class="file-link">\<newline>'' @
               ''            <span class="file-icon"></span>\<newline>'' @
               ''            <span>'' @
               title pc @
               ''</span>\<newline>          </a>\<newline>        </li>'' @
               ''\<newline>        <li>\<newline>'' @
               ''          <a href="a/b.html" class="file-link">\<newline>'' @
               ''            <span class="file-icon"></span>\<newline>'' @
               ''            <span>'' @
               title pb @
               ''</span>\<newline>          </a>\<newline>        </li>'') @
           ''\<newline>          </ul>\<newline>        </li>\<newline>        <li>\<newline>'' @
           ''          <a href="d.html" class="file-link">\<newline>'' @
           ''            <span class="file-icon"></span>\<newline>'' @
           ''            <span>'' @
           title pd @
           ''</span>\<newline>          </a>\<newline>        </li>''\<close>
    unfolding folded
    using assms(4-6)
    by (simp add: renderNode.simps [of lc "TreeNode a b c d" for a b c d]
        sortBy_def nodeCompare_def folderItem_def fileItem_def nl_def)
  have \<open>innerTree lc pages =
          ''\<newline>        <li>\<newline>          <div class="folder" data-folder>\<newline>            <span class="folder-icon"></span>\<newline>            '' @ ''<span class="folder-name">a</span>'' @
          (''\<newline>          </div>\<newline>          <ul class="folder-content">\<newline>            '' @
           (if lc ''b.html'' ''c.html'' \<le> 0
            then
               ''\<newline>        <li>\<newline>'' @
               ''          <a href="a/b.html" class="file-link">\<newline>'' @
               ''            <span class="file-icon"></span>\<newline>'' @
               ''            <span>'' @
               title pb @
               ''</span>\<newline>          </a>\<newline>        </li>'' @
               ''\<newline>        <li>\<newline>'' @
               ''          <a href="a/c.html" class="file-link">\<newline>'' @
               ''            <span class="file-icon"></span>\<newline>'' @
               ''            <span>'' @
               title pc @
               ''</span>\<newline>          </a>\<newline>        </li>''
            else
               ''\<newline>        <li>\<newline>'' @
               ''          <a href="a/c.html" class="file-link">\<newline>'' @
               ''            <span class="file-icon"></span>\<newline>'' @
               ''            <span>'' @
               title pc @
               ''</span>\<newline>          </a>\<newline>        </li>'' @
               ''\<newline>        <li>\<newline>'' @
               ''          <a href="a/b.html" class="file-link">\<newline>'' @
               ''            <span class="file-icon"></span>\<newline>'' @
               ''            <span>'' @
               title pb @
               ''</span>\<newline>          </a>\<newline>        </li>'') @
           ''\<newline>          </ul>\<newline>        </li>\<newline>        <li>\<newline>          '') @
          ''<a href="d.html" class="file-link">'' @
          (''\<newline>            <span class="file-icon"></span>\<newline>            <span>'' @ title pd @ ''</span>\<newline>          </a>\<newline>        </li>'')\<close>
    unfolding written by simp
  then have occurs: \<open>\<exists>before between after.
            innerTree lc pages =
              before @ ''<span class="folder-name">a</span>'' @ between @
              ''<a href="d.html" class="file-link">'' @ after\<close>
    by blast
  from tree folded written occurs show ?thesis by blast
qed

text \<open>The same for three concrete pages, given in another order: the tree, and the
  rendered list as it is written to the page.\<close>

theorem tree_of_three_pages_witness:
  \<open>children (buildTree codeUnitCompare [pageD, pageC, pageB]) =
     [TreeNode ''a'' ''a''
        [TreeNode ''b.html'' ''a/b.html'' [] (Some pageB),
         TreeNode ''c.html'' ''a/c.html'' [] (Some pageC)] None,
      TreeNode ''d.html'' ''d.html'' [] (Some pageD)] \<and>
   innerTree codeUnitCompare [pageD, pageC, pageB] =
     ''\<newline>        <li>\<newline>          <div class="folder" data-folder>\<newline>'' @
     ''            <span class="folder-icon"></span>\<newline>'' @
     ''            <span class="folder-name">a</span>\<newline>'' @
     ''          </div>\<newline>          <ul class="folder-content">\<newline>'' @
     ''            \<newline>        <li>\<newline>'' @
     ''          <a href="a/b.html" class="file-link">\<newline>'' @
     ''            <span class="file-icon"></span>\<newline>'' @
     ''            <span>B</span>\<newline>          </a>\<newline>        </li>\<newline>'' @
     ''        <li>\<newline>'' @
     ''          <a href="a/c.html" class="file-link">\<newline>'' @
     ''            <span class="file-icon"></span>\<newline>'' @
     ''            <span>C</span>\<newline>          </a>\<newline>        </li>\<newline>'' @
     ''          </ul>\<newline>        </li>\<newline>        <li>\<newline>'' @
     ''          <a href="d.html" class="file-link">\<newline>'' @
     ''            <span class="file-icon"></span>\<newline>'' @
     ''            <span>D</span>\<newline>          </a>\<newline>        </li>''\<close>
proof -
  have less: "codeUnitCompare ''a/b.html'' ''a/c.html'' < 0"
    "codeUnitCompare ''a/c.html'' ''d.html'' < 0"
    by simp_all
  have paths: "path pageB = ''a/b.html''" "path pageC = ''a/c.html''" "path pageD = ''d.html''"
    by (simp_all add: pageB_def pageC_def pageD_def)
  have perm: "mset [pageD, pageC, pageB] = {#pageB, pageC, pageD#}" by simp
  note all = tree_of_three_pages [OF consistent_codeUnitCompare less paths perm]
  from all have "buildTree codeUnitCompare [pageD, pageC, pageB] =
           TreeNode ''Project'' []
             [TreeNode ''a'' ''a''
                [TreeNode ''b.html'' ''a/b.html'' [] (Some pageB),
                 TreeNode ''c.html'' ''a/c.html'' [] (Some pageC)] None,
              TreeNode ''d.html'' ''d.html'' [] (Some pageD)] None"
    by (rule conjunct1)
  then have tree: "children (buildTree codeUnitCompare [pageD, pageC, pageB]) =
     [TreeNode ''a'' ''a''
        [TreeNode ''b.html'' ''a/b.html'' [] (Some pageB),
         TreeNode ''c.html'' ''a/c.html'' [] (Some pageC)] None,
      TreeNode ''d.html'' ''d.html'' [] (Some pageD)]"
    by simp
  note written = conjunct1 [OF conjunct2 [OF conjunct2 [OF all]]]
  have titles: "title pageB = ''B''" "title pageC = ''C''" "title pageD = ''D''"
    by (simp_all add: pageB_def pageC_def pageD_def)
  show ?thesis
    unfolding written titles using tree by simp
qed

text \<open>
  C1, at the root. The children of the root are rendered in the order in which the
  sorted pages created them, without the sort that every other directory node
  applies: for the pages \<open>a.html\<close> and \<open>b/c.html\<close> the file \<open>a.html\<close> is
  rendered before the directory \<open>b\<close>.
\<close>

theorem root_children_in_path_order:
  "children (buildTree codeUnitCompare [pageBC, pageA]) =
     [TreeNode ''a.html'' ''a.html'' [] (Some pageA),
      TreeNode ''b'' ''b'' [TreeNode ''c.html'' ''b/c.html'' [] (Some pageBC)] None] \<and>
   innerTree codeUnitCompare [pageBC, pageA] =
     fileItem pageA @
     folderItem (TreeNode ''b'' ''b'' [TreeNode ''c.html'' ''b/c.html'' [] (Some pageBC)] None)
       (fileItem pageBC)"
  by (simp add: innerTree_def buildTree_def sortBy_def pageCompare_def pageA_def pageBC_def
      insertPage_def pathParts_def emptyRoot_def pushChild_def replaceChild_def
      renderNode.simps [of codeUnitCompare "TreeNode a b c d" for a b c d])

section \<open>Invariants of the tree\<close>

lemma name_insertParts [simp]: "name (insertParts pg parts i rest cur) = name cur"
  by (induction rest arbitrary: i cur)
     (auto simp: Let_def pushChild_def replaceChild_def split: option.splits)

lemma page_insertParts [simp]: "page (insertParts pg parts i rest cur) = page cur"
  by (induction rest arbitrary: i cur)
     (auto simp: Let_def pushChild_def replaceChild_def split: option.splits)

lemma names_replaceFirst: "name new = n \<Longrightarrow> map name (replaceFirst n new cs) = map name cs"
  by (induction cs) auto

lemma set_replaceFirst: "set (replaceFirst n new cs) \<subseteq> insert new (set cs)"
  by (induction cs) auto

lemma namesDistinct_sel:
  "namesDistinct t \<longleftrightarrow> distinct (map name (children t)) \<and> (\<forall>c\<in>set (children t). namesDistinct c)"
  by (cases t) simp

lemma oneKind_sel:
  "oneKind t \<longleftrightarrow> (page t = None \<or> children t = []) \<and> (\<forall>c\<in>set (children t). oneKind c)"
  by (cases t) (auto simp: isDirectoryNode_def isFileNode_def)

lemma tracked_sel:
  "tracked P pre t \<longleftrightarrow>
     (page t \<noteq> None \<longrightarrow> children t = [] \<and> pre \<in> P) \<and>
     (\<forall>c\<in>set (children t). tracked P (pre @ [name c]) c)"
  by (cases t) simp

lemma find_name_None: "find (\<lambda>c. name c = n) cs = None \<Longrightarrow> n \<notin> set (map name cs)"
  by (auto simp: find_None_iff)

lemma find_name_Some: "find (\<lambda>c. name c = n) cs = Some c \<Longrightarrow> c \<in> set cs \<and> name c = n"
  by (auto simp: find_Some_iff)

lemma namesDistinct_insertParts:
  "namesDistinct cur \<Longrightarrow> namesDistinct (insertParts pg parts i rest cur)"
proof (induction rest arbitrary: i cur)
  case Nil
  then show ?case by simp
next
  case (Cons part rest)
  let ?found = "find (\<lambda>c. name c = part) (children cur)"
  show ?case
  proof (cases ?found)
    case None
    then have fresh: "part \<notin> set (map name (children cur))" by (rule find_name_None)
    let ?child = "TreeNode part (join ''/'' (take (i + 1) parts)) []
                    (if int i = int (length parts) - 1 then Some pg else None)"
    have nd_child: "namesDistinct ?child" by simp
    have nd_push: "namesDistinct (pushChild cur c)" if "namesDistinct c" "name c = part" for c
      using that Cons.prems fresh
      by (subst namesDistinct_sel) (auto simp: pushChild_def namesDistinct_sel [of cur])
    show ?thesis
    proof (cases "int i = int (length parts) - 1")
      case True
      have "namesDistinct (pushChild cur ?child)" by (rule nd_push) simp_all
      then have "namesDistinct (insertParts pg parts (i + 1) rest (pushChild cur ?child))"
        by (rule Cons.IH)
      with None True show ?thesis by (simp add: Let_def)
    next
      case False
      have "namesDistinct (insertParts pg parts (i + 1) rest ?child)"
        by (rule Cons.IH [OF nd_child])
      then have "namesDistinct (pushChild cur (insertParts pg parts (i + 1) rest ?child))"
        by (rule nd_push) simp
      with None False show ?thesis by (simp add: Let_def)
    qed
  next
    case (Some child)
    then have mem: "child \<in> set (children cur)" and nm: "name child = part"
      using find_name_Some by blast+
    show ?thesis
    proof (cases "int i = int (length parts) - 1")
      case True
      have "namesDistinct (insertParts pg parts (i + 1) rest cur)"
        by (rule Cons.IH [OF Cons.prems])
      with Some True show ?thesis by (simp add: Let_def)
    next
      case False
      let ?new = "insertParts pg parts (i + 1) rest child"
      have "namesDistinct child" using Cons.prems mem by (simp add: namesDistinct_sel [of cur])
      then have new: "namesDistinct ?new" by (rule Cons.IH)
      have "namesDistinct (replaceChild cur part ?new)"
        using Cons.prems new nm set_replaceFirst [of part ?new "children cur"]
        by (subst namesDistinct_sel)
           (auto simp: replaceChild_def names_replaceFirst namesDistinct_sel [of cur])
      with Some False show ?thesis by (simp add: Let_def)
    qed
  qed
qed

lemma namesDistinct_foldl:
  "namesDistinct t \<Longrightarrow> namesDistinct (foldl insertPage t pgs)"
  by (induction pgs arbitrary: t) (simp_all add: insertPage_def namesDistinct_insertParts)

lemma namesDistinct_buildTree: "namesDistinct (buildTree lc pages)"
  unfolding buildTree_def by (rule namesDistinct_foldl) (simp add: emptyRoot_def)


lemma tracked_mono: "tracked P pre t \<Longrightarrow> P \<subseteq> Q \<Longrightarrow> tracked Q pre t"
  by (induction P pre t rule: tracked.induct) auto

lemma tracked_oneKind: "tracked P pre t \<Longrightarrow> oneKind t"
  by (induction P pre t rule: tracked.induct) (auto simp: isDirectoryNode_def isFileNode_def)

lemma tracked_insertParts:
  assumes "tracked P (take i parts) cur" and "rest = drop i parts" and "i \<le> length parts"
    and "page cur = None"
    and "\<forall>s\<in>P. s \<noteq> [] \<longrightarrow> \<not> strict_prefix s parts"
  shows "tracked (insert parts P) (take i parts) (insertParts pg parts i rest cur)"
  using assms(1-4)
proof (induction rest arbitrary: i cur)
  case Nil
  then show ?case by (auto intro: tracked_mono)
next
  case (Cons part rest)
  from Cons.prems(2) have i: "i < length parts"
    by (metis drop_eq_Nil list.distinct(1) not_le)
  have part: "part = parts ! i" and rest: "rest = drop (i + 1) parts"
    using Cons.prems(2) i by (simp_all add: Cons_nth_drop_Suc [symmetric])
  have pre: "take (i + 1) parts = take i parts @ [part]"
    using i part by (simp add: take_Suc_conv_app_nth)
  have isFile: "int i = int (length parts) - 1 \<longleftrightarrow> rest = []"
    using i rest by auto
  have cur: "tracked (insert parts P) (take i parts) cur"
    using Cons.prems(1) by (rule tracked_mono) auto
  let ?found = "find (\<lambda>c. name c = part) (children cur)"
  show ?case
  proof (cases ?found)
    case None
    let ?child = "TreeNode part (join ''/'' (take (i + 1) parts)) []
                    (if int i = int (length parts) - 1 then Some pg else None)"
    have push: "tracked (insert parts P) (take i parts) (pushChild cur c)"
      if "tracked (insert parts P) (take i parts @ [part]) c" "name c = part" for c
      using that cur Cons.prems(4)
      by (subst tracked_sel) (auto simp: pushChild_def tracked_sel [of _ _ cur])
    show ?thesis
    proof (cases "rest = []")
      case True
      then have full: "take i parts @ [part] = parts"
        using pre rest i by (metis drop_eq_Nil take_all)
      have "tracked (insert parts P) (take i parts @ [part]) ?child"
        by (simp add: full)
      then have "tracked (insert parts P) (take i parts) (pushChild cur ?child)"
        by (rule push) simp
      with None True isFile show ?thesis by (simp add: Let_def)
    next
      case False
      then have notFile: "int i \<noteq> int (length parts) - 1" using isFile by simp
      have "tracked (insert parts P) (take (i + 1) parts)
              (insertParts pg parts (i + 1) rest ?child)"
        using rest i notFile by (intro Cons.IH) (auto simp: tracked_sel [of _ _ "TreeNode a b c d" for a b c d])
      then have "tracked (insert parts P) (take i parts)
              (pushChild cur (insertParts pg parts (i + 1) rest ?child))"
        unfolding pre by (rule push) simp
      with None notFile show ?thesis by (simp add: Let_def)
    qed
  next
    case (Some child)
    then have mem: "child \<in> set (children cur)" and nm: "name child = part"
      using find_name_Some by blast+
    have child: "tracked P (take i parts @ [part]) child"
      using Cons.prems(1) mem nm by (auto simp: tracked_sel [of _ _ cur])
    show ?thesis
    proof (cases "rest = []")
      case True
      with Some isFile cur show ?thesis by (simp add: Let_def)
    next
      case False
      then have notFile: "int i \<noteq> int (length parts) - 1" using isFile by simp
      from False rest have longer: "i + 1 < length parts" by simp
      have dir: "page child = None"
      proof (rule ccontr)
        assume "page child \<noteq> None"
        with child have "take i parts @ [part] \<in> P" by (auto simp: tracked_sel [of _ _ child])
        moreover have "strict_prefix (take (i + 1) parts) parts"
          using longer by (metis append_take_drop_id drop_eq_Nil not_le
              strict_prefixI' neq_Nil_conv)
        ultimately show False using assms(5) pre by auto
      qed
      let ?new = "insertParts pg parts (i + 1) rest child"
      have new: "tracked (insert parts P) (take i parts @ [part]) ?new"
        using Cons.IH [of "i + 1" child] child rest longer dir pre by simp
      have "tracked (insert parts P) (take i parts) (replaceChild cur part ?new)"
        using cur new nm Cons.prems(4) set_replaceFirst [of part ?new "children cur"]
        by (subst tracked_sel) (auto simp: replaceChild_def tracked_sel [of _ _ cur])
      with Some notFile show ?thesis by (simp add: Let_def)
    qed
  qed
qed

lemma tracked_foldl:
  assumes "tracked P [] t" and "page t = None"
    and "\<forall>q\<in>set pgs. \<forall>s\<in>P \<union> pathParts ` set pgs. s \<noteq> [] \<longrightarrow> \<not> strict_prefix s (pathParts q)"
  shows "tracked (P \<union> pathParts ` set pgs) [] (foldl insertPage t pgs)"
  using assms
proof (induction pgs arbitrary: P t)
  case Nil
  then show ?case by simp
next
  case (Cons q pgs)
  have step: "tracked (insert (pathParts q) P) [] (insertPage t q)"
    unfolding insertPage_def
    using tracked_insertParts [of P 0 "pathParts q" t "pathParts q" q] Cons.prems by simp
  have "tracked (insert (pathParts q) P \<union> pathParts ` set pgs) []
          (foldl insertPage (insertPage t q) pgs)"
  proof (rule Cons.IH [OF step])
    show "page (insertPage t q) = None" using Cons.prems(2) by (simp add: insertPage_def)
    show "\<forall>r\<in>set pgs. \<forall>s\<in>insert (pathParts q) P \<union> pathParts ` set pgs.
            s \<noteq> [] \<longrightarrow> \<not> strict_prefix s (pathParts r)"
      using Cons.prems(3) by auto
  qed
  then show ?case by simp
qed

text \<open>
  C3, amended. In the tree of any list of pages the children of every node have
  pairwise distinct names. Every node is exactly one of a directory and a file when
  no page's non-empty list of path parts is a proper prefix of another page's list.
\<close>

theorem tree_nodes_well_formed:
  "namesDistinct (buildTree lc pages) \<and>
   ((\<forall>p\<in>set pages. \<forall>q\<in>set pages.
        pathParts p \<noteq> [] \<longrightarrow> \<not> strict_prefix (pathParts p) (pathParts q))
    \<longrightarrow> oneKind (buildTree lc pages))"
proof (intro conjI impI)
  show "namesDistinct (buildTree lc pages)" by (rule namesDistinct_buildTree)
next
  assume h: "\<forall>p\<in>set pages. \<forall>q\<in>set pages.
        pathParts p \<noteq> [] \<longrightarrow> \<not> strict_prefix (pathParts p) (pathParts q)"
  let ?sorted = "sortBy (pageCompare lc) pages"
  have "tracked ({} \<union> pathParts ` set ?sorted) [] (foldl insertPage emptyRoot ?sorted)"
  proof (rule tracked_foldl)
    show "tracked {} [] emptyRoot" by (simp add: emptyRoot_def)
    show "page emptyRoot = None" by (simp add: emptyRoot_def)
    show "\<forall>q\<in>set ?sorted. \<forall>s\<in>{} \<union> pathParts ` set ?sorted.
            s \<noteq> [] \<longrightarrow> \<not> strict_prefix s (pathParts q)"
      using h by (auto simp: set_sortBy)
  qed
  then show "oneKind (buildTree lc pages)"
    unfolding buildTree_def by (rule tracked_oneKind)
qed

text \<open>
  C3 as stated fails: with the pages \<open>a.html\<close> and \<open>a.html/b.html\<close> the node
  \<open>a.html\<close> is created as a file and then entered as a directory, so it has both a
  page and a child.
\<close>

theorem file_node_with_children:
  "buildTree codeUnitCompare [pageAH, pageAHB] =
     TreeNode ''Project'' []
       [TreeNode ''a.html'' ''a.html''
          [TreeNode ''b.html'' ''a.html/b.html'' [] (Some pageAHB)] (Some pageAH)] None \<and>
   \<not> oneKind (buildTree codeUnitCompare [pageAH, pageAHB])"
  by (simp add: buildTree_def sortBy_def pageCompare_def pageAH_def pageAHB_def
      insertPage_def pathParts_def emptyRoot_def pushChild_def replaceChild_def
      isDirectoryNode_def isFileNode_def)

theorem tree_nodes_well_formed_witness:
  "namesDistinct (buildTree codeUnitCompare [pageB, pageC, pageD]) \<and>
   oneKind (buildTree codeUnitCompare [pageB, pageC, pageD])"
  using tree_nodes_well_formed [of codeUnitCompare "[pageB, pageC, pageD]"]
  by (simp add: pageB_def pageC_def pageD_def pathParts_def)

section \<open>Pages without path parts\<close>

lemma insertPage_no_parts: "pathParts p = [] \<Longrightarrow> insertPage t p = t"
  by (simp add: insertPage_def)

lemma foldl_insertPage_filter:
  "foldl insertPage t (filter (\<lambda>q. pathParts q \<noteq> []) pgs) = foldl insertPage t pgs"
  by (induction pgs arbitrary: t) (simp_all add: insertPage_no_parts)

lemma buildTree_filter:
  assumes "consistent lc"
  shows "buildTree lc (filter (\<lambda>q. pathParts q \<noteq> []) pgs) = buildTree lc pgs"
proof -
  have "sortBy (pageCompare lc) (filter (\<lambda>q. pathParts q \<noteq> []) pgs) =
        filter (\<lambda>q. pathParts q \<noteq> []) (sortBy (pageCompare lc) pgs)"
    by (rule filter_sortBy [OF consistent_pageCompare [OF assms], symmetric])
  then show ?thesis by (simp add: buildTree_def foldl_insertPage_filter)
qed

lemma split_only_separators:
  "filter (\<lambda>s. s \<noteq> []) (split sep s) = [] \<longleftrightarrow> set s \<subseteq> {sep}"
  by (induction s) (auto split: list.splits simp: split_nonempty)

lemma pathParts_empty_iff: "pathParts p = [] \<longleftrightarrow> set (path p) \<subseteq> {CHR ''/''}"
  by (simp add: pathParts_def split_only_separators)

text \<open>
  C8. A page whose output path has no non-empty part (the empty path, or separators
  only) leaves the tree as it is: with a consistent comparison function, the tree of
  a list that holds such a page is the tree of the list without it.
\<close>

theorem page_without_parts_adds_no_node:
  assumes "consistent lc" and "pathParts p = []"
  shows "buildTree lc (xs @ p # ys) = buildTree lc (xs @ ys)"
proof -
  have "filter (\<lambda>q. pathParts q \<noteq> []) (xs @ p # ys) = filter (\<lambda>q. pathParts q \<noteq> []) (xs @ ys)"
    using assms(2) by simp
  then show ?thesis
    using buildTree_filter [OF assms(1), of "xs @ p # ys"] buildTree_filter [OF assms(1), of "xs @ ys"]
    by simp
qed

theorem page_without_parts_witness:
  "buildTree codeUnitCompare [pageD, pageEmpty, pageB] = buildTree codeUnitCompare [pageD, pageB]"
  using page_without_parts_adds_no_node [of codeUnitCompare pageEmpty "[pageD]" "[pageB]"]
    consistent_codeUnitCompare
  by (simp add: pageEmpty_def pathParts_def)

section \<open>The order of the pages\<close>

text \<open>
  C10, amended. With a consistent comparison function, the generated page is the
  same for every arrangement of a list of pages whose output paths are pairwise
  distinct and of which no two distinct ones compare as equal.
\<close>

theorem toc_of_permuted_pages:
  assumes "consistent lc"
    and "distinct (map path pages)"
    and "\<forall>p\<in>set pages. \<forall>q\<in>set pages. lc (path p) (path q) = 0 \<longrightarrow> path p = path q"
    and "mset pages' = mset pages"
  shows "generateTocHtml lc pages' = generateTocHtml lc pages"
proof -
  have inj: "inj_on path (set pages)" using assms(2) by (simp add: distinct_map)
  have "sortBy (pageCompare lc) pages = sortBy (pageCompare lc) pages'"
  proof (rule sortBy_permutation [OF consistent_pageCompare [OF assms(1)]])
    show "mset pages = mset pages'" using assms(4) by simp
  next
    fix x y
    assume "x \<in> set pages" "y \<in> set pages" "pageCompare lc x y = 0"
    with assms(3) have "path x = path y" by (simp add: pageCompare_def)
    with inj \<open>x \<in> set pages\<close> \<open>y \<in> set pages\<close> show "x = y" by (auto dest: inj_onD)
  qed
  moreover have "length pages' = length pages" using assms(4) by (metis size_mset)
  ultimately show ?thesis by (simp add: generateTocHtml_def innerTree_def buildTree_def)
qed

theorem toc_of_permuted_pages_witness:
  "generateTocHtml codeUnitCompare [pageD, pageB, pageC]
     = generateTocHtml codeUnitCompare [pageB, pageC, pageD]"
  using toc_of_permuted_pages [of codeUnitCompare "[pageB, pageC, pageD]" "[pageD, pageB, pageC]"]
    consistent_codeUnitCompare
  by (simp add: pageB_def pageC_def pageD_def)

text \<open>
  C10 as stated fails: distinct output paths are not enough. The composed and the
  decomposed spelling of a name are distinct paths that compare as equal, the stable
  sort keeps them in the order given, and the two orders give different pages.
\<close>

theorem toc_depends_on_order:
  "distinct (map path [pageComposed, pageDecomposed]) \<and>
   mset [pageDecomposed, pageComposed] = mset [pageComposed, pageDecomposed] \<and>
   generateTocHtml canonCompare [pageDecomposed, pageComposed]
     \<noteq> generateTocHtml canonCompare [pageComposed, pageDecomposed]"
  by (simp add: generateTocHtml_def innerTree_def buildTree_def sortBy_def pageCompare_def
      canonCompare_def pageComposed_def pageDecomposed_def
      insertPage_def pathParts_def emptyRoot_def pushChild_def replaceChild_def
      renderNode.simps [of canonCompare "TreeNode a b c d" for a b c d] fileItem_def nl_def)

section \<open>Conversion is a function of path and text\<close>

lemma convert_result:
  assumes "convertMarkdownToHtml marked cwd w mdPath = Inr (pg, w')"
  shows "\<exists>text. files w mdPath = Some text \<and>
           dirname (htmlPathOf cwd mdPath) \<notin> failing w \<and> htmlPathOf cwd mdPath \<notin> failing w \<and>
           pg = \<lparr>path = relative (DIST_DIR cwd) (htmlPathOf cwd mdPath),
                 relativePath = relative cwd mdPath,
                 title = pageTitle mdPath text,
                 depth = int (length (split (CHR ''/'') (relative cwd mdPath))) - 1\<rparr> \<and>
           w' = w\<lparr>dirs := insert (dirname (htmlPathOf cwd mdPath)) (dirs w),
                   files := (files w)(htmlPathOf cwd mdPath \<mapsto> htmlTemplate (pageTitle mdPath text) (marked text))\<rparr>"
  using assms
  by (auto simp: convertMarkdownToHtml_def readFile_def mkdir_def writeFile_def Let_def htmlPathOf_def
      split: option.splits if_splits)

lemma convert_success:
  assumes "files w mdPath = Some text"
    and "dirname (htmlPathOf cwd mdPath) \<notin> failing w" and "htmlPathOf cwd mdPath \<notin> failing w"
  shows "convertMarkdownToHtml marked cwd w mdPath =
           Inr (\<lparr>path = relative (DIST_DIR cwd) (htmlPathOf cwd mdPath),
                 relativePath = relative cwd mdPath,
                 title = pageTitle mdPath text,
                 depth = int (length (split (CHR ''/'') (relative cwd mdPath))) - 1\<rparr>,
                w\<lparr>dirs := insert (dirname (htmlPathOf cwd mdPath)) (dirs w),
                   files := (files w)(htmlPathOf cwd mdPath \<mapsto> htmlTemplate (pageTitle mdPath text) (marked text))\<rparr>)"
  using assms
  by (simp add: convertMarkdownToHtml_def readFile_def mkdir_def writeFile_def Let_def htmlPathOf_def)

text \<open>
  C9. The page record and the bytes written to the output file depend on the source
  path and the source text alone: a conversion in any other world with the same
  source text yields the same record and the same file content. Run once more on
  the world it produced, with the source text unchanged, the conversion succeeds,
  returns the same record and leaves every file as it is.
\<close>

theorem conversion_deterministic:
  assumes "convertMarkdownToHtml marked cwd w mdPath = Inr (pg, w')"
  shows "(\<forall>v pg2 v'. files v mdPath = files w mdPath \<longrightarrow>
            convertMarkdownToHtml marked cwd v mdPath = Inr (pg2, v') \<longrightarrow>
            pg2 = pg \<and> files v' (htmlPathOf cwd mdPath) = files w' (htmlPathOf cwd mdPath)) \<and>
         (files w' mdPath = files w mdPath \<longrightarrow>
            convertMarkdownToHtml marked cwd w' mdPath = Inr (pg, w'))"
proof (intro conjI allI impI)
  fix v pg2 v'
  assume same: "files v mdPath = files w mdPath"
    and run: "convertMarkdownToHtml marked cwd v mdPath = Inr (pg2, v')"
  from convert_result [OF assms] convert_result [OF run] same
  show "pg2 = pg" by auto
  from convert_result [OF assms] convert_result [OF run] same
  show "files v' (htmlPathOf cwd mdPath) = files w' (htmlPathOf cwd mdPath)" by auto
next
  assume unchanged: "files w' mdPath = files w mdPath"
  from convert_result [OF assms] obtain src where
    src: "files w mdPath = Some src"
    and ok: "dirname (htmlPathOf cwd mdPath) \<notin> failing w" "htmlPathOf cwd mdPath \<notin> failing w"
    and pg: "pg = \<lparr>path = relative (DIST_DIR cwd) (htmlPathOf cwd mdPath),
                 relativePath = relative cwd mdPath,
                 title = pageTitle mdPath src,
                 depth = int (length (split (CHR ''/'') (relative cwd mdPath))) - 1\<rparr>"
    and w': "w' = w\<lparr>dirs := insert (dirname (htmlPathOf cwd mdPath)) (dirs w),
                   files := (files w)(htmlPathOf cwd mdPath \<mapsto> htmlTemplate (pageTitle mdPath src) (marked src))\<rparr>"
    by blast
  have "files w' mdPath = Some src" using unchanged src by simp
  moreover have "dirname (htmlPathOf cwd mdPath) \<notin> failing w'" "htmlPathOf cwd mdPath \<notin> failing w'"
    using ok w' by simp_all
  ultimately have "convertMarkdownToHtml marked cwd w' mdPath =
           Inr (\<lparr>path = relative (DIST_DIR cwd) (htmlPathOf cwd mdPath),
                 relativePath = relative cwd mdPath,
                 title = pageTitle mdPath src,
                 depth = int (length (split (CHR ''/'') (relative cwd mdPath))) - 1\<rparr>,
                w'\<lparr>dirs := insert (dirname (htmlPathOf cwd mdPath)) (dirs w'),
                   files := (files w')(htmlPathOf cwd mdPath \<mapsto> htmlTemplate (pageTitle mdPath src) (marked src))\<rparr>)"
    by (rule convert_success)
  moreover have "w'\<lparr>dirs := insert (dirname (htmlPathOf cwd mdPath)) (dirs w'),
                   files := (files w')(htmlPathOf cwd mdPath \<mapsto> htmlTemplate (pageTitle mdPath src) (marked src))\<rparr> = w'"
    unfolding w' by (simp add: insert_absorb)
  ultimately show "convertMarkdownToHtml marked cwd w' mdPath = Inr (pg, w')"
    using pg by simp
qed

theorem conversion_deterministic_witness:
  "\<exists>pg w'. convertMarkdownToHtml id ''/home/u/notes'' notesWorld ''/home/u/notes/x/y/z.md''
             = Inr (pg, w') \<and>
           convertMarkdownToHtml id ''/home/u/notes'' w' ''/home/u/notes/x/y/z.md''
             = Inr (pg, w')"
proof -
  obtain pg w' where
    run: "convertMarkdownToHtml id ''/home/u/notes'' notesWorld ''/home/u/notes/x/y/z.md''
            = Inr (pg, w')"
    using notes_conversion by blast
  have "htmlPathOf ''/home/u/notes'' ''/home/u/notes/x/y/z.md'' \<noteq> ''/home/u/notes/x/y/z.md''"
    by (simp add: htmlPathOf_def DIST_DIR_def pathJoin_def replaceMdExt_def endsWith_def
        relative_def segments_def)
  with convert_result [OF run]
  have "files w' ''/home/u/notes/x/y/z.md'' = files notesWorld ''/home/u/notes/x/y/z.md''"
    by auto
  with conversion_deterministic [OF run] run show ?thesis by blast
qed

section \<open>Discovered files\<close>

lemma fileAt_mono: "fileAt es names \<Longrightarrow> set es \<subseteq> set es' \<Longrightarrow> fileAt es' names"
proof (cases names)
  case Nil
  then show "fileAt es names \<Longrightarrow> fileAt es' names" by simp
next
  case (Cons n ms)
  assume a: "fileAt es names" and s: "set es \<subseteq> set es'"
  show "fileAt es' names"
  proof (cases ms)
    case Nil
    with a s Cons show ?thesis by auto
  next
    case (Cons m ms')
    with a \<open>names = n # ms\<close>
    have "\<exists>e\<in>set es. case e of DirEntry d (Some sub) \<Rightarrow> d = n \<and> fileAt sub (m # ms')
                          | _ \<Rightarrow> False"
      by (simp add: list_ex_iff)
    with s have "\<exists>e\<in>set es'. case e of DirEntry d (Some sub) \<Rightarrow> d = n \<and> fileAt sub (m # ms')
                          | _ \<Rightarrow> False"
      by blast
    with Cons \<open>names = n # ms\<close> show ?thesis by (simp add: list_ex_iff)
  qed
qed

lemma discovered_mono:
  assumes "discovered dir es p" and "set es \<subseteq> set es'"
  shows "discovered dir es' p"
proof -
  from assms(1) obtain names where names: "names \<noteq> []" "p = foldl pathJoin dir names"
    "endsWith (last names) ''.md''"
    "\<forall>n\<in>set names. n \<noteq> ''dist'' \<and> n \<noteq> ''node_modules'' \<and> \<not> startsWith n ''.''"
    "fileAt es names"
    unfolding discovered_def by blast
  from names(5) assms(2) have "fileAt es' names" by (rule fileAt_mono)
  with names(1-4) show ?thesis unfolding discovered_def by blast
qed

lemma discovered_file:
  assumes "\<not> skipped n" and "endsWith n ''.md''"
  shows "discovered dir (FileEntry n # rest) (pathJoin dir n)"
proof -
  have "[n] \<noteq> []" "pathJoin dir n = foldl pathJoin dir [n]" "endsWith (last [n]) ''.md''"
    "\<forall>m\<in>set [n]. m \<noteq> ''dist'' \<and> m \<noteq> ''node_modules'' \<and> \<not> startsWith m ''.''"
    "fileAt (FileEntry n # rest) [n]"
    using assms unfolding skipped_def by simp_all
  then show ?thesis unfolding discovered_def by blast
qed

lemma discovered_below:
  assumes "\<not> skipped n" and "discovered (pathJoin dir n) sub p"
  shows "discovered dir (DirEntry n (Some sub) # rest) p"
proof -
  from assms(2) obtain names where names: "names \<noteq> []" "p = foldl pathJoin (pathJoin dir n) names"
    "endsWith (last names) ''.md''"
    "\<forall>n\<in>set names. n \<noteq> ''dist'' \<and> n \<noteq> ''node_modules'' \<and> \<not> startsWith n ''.''"
    "fileAt sub names"
    unfolding discovered_def by blast
  from names(1) obtain m ms where ms: "names = m # ms" by (cases names) auto
  have "n # names \<noteq> []" by simp
  moreover have "p = foldl pathJoin dir (n # names)" using names(2) by simp
  moreover have "endsWith (last (n # names)) ''.md''" using names(1,3) by simp
  moreover have "\<forall>k\<in>set (n # names). k \<noteq> ''dist'' \<and> k \<noteq> ''node_modules'' \<and> \<not> startsWith k ''.''"
    using names(4) assms(1) unfolding skipped_def by simp
  moreover have "fileAt (DirEntry n (Some sub) # rest) (n # names)"
    using names(5) unfolding ms by simp
  ultimately show ?thesis unfolding discovered_def by blast
qed

lemma walk_result:
  "(getAllMarkdownFiles dir listing acc = Inr out \<longrightarrow>
      (\<exists>es new. listing = Some es \<and> out = acc @ new \<and> (\<forall>p\<in>set new. discovered dir es p)))"
  "(walkEntries dir entries acc = Inr out \<longrightarrow>
      (\<exists>new. out = acc @ new \<and> (\<forall>p\<in>set new. discovered dir entries p)))"
proof (induction dir listing acc and dir entries acc arbitrary: out and out
    rule: getAllMarkdownFiles_walkEntries.induct)
  case (1 dir acc)
  then show ?case by simp
next
  case (2 dir entries acc)
  then show ?case by simp
next
  case (3 dir acc)
  then show ?case by simp
next
  case (4 dir entry rest acc)
  show ?case
  proof
    assume run: "walkEntries dir (entry # rest) acc = Inr out"
    have later: "\<exists>new. out = fs @ new \<and> (\<forall>p\<in>set new. discovered dir (entry # rest) p)"
      if "\<exists>new. out = fs @ new \<and> (\<forall>p\<in>set new. discovered dir rest p)" for fs
      using that discovered_mono [of dir rest _ "entry # rest"] by auto
    show "\<exists>new. out = acc @ new \<and> (\<forall>p\<in>set new. discovered dir (entry # rest) p)"
    proof (cases "skipped (entryName entry)")
      case True
      with run "4.IH"(1) [of "pathJoin dir (entryName entry)" out] later show ?thesis by simp
    next
      case False
      show ?thesis
      proof (cases entry)
        case (FileEntry n)
        show ?thesis
        proof (cases "endsWith n ''.md''")
          case True
          with run False FileEntry
          have "walkEntries dir rest (acc @ [pathJoin dir n]) = Inr out" by simp
          with "4.IH"(2) [OF refl False FileEntry True, of out] FileEntry
          obtain new where new: "out = (acc @ [pathJoin dir n]) @ new"
            "\<forall>p\<in>set new. discovered dir rest p" by auto
          have "\<forall>p\<in>set (pathJoin dir n # new). discovered dir (entry # rest) p"
            using new(2) discovered_mono [of dir rest _ "entry # rest"]
              discovered_file [of n dir rest] False True FileEntry by auto
          with new(1) show ?thesis by (intro exI [of _ "pathJoin dir n # new"]) simp
        next
          case notMd: False
          with run False FileEntry "4.IH"(3) [OF refl False FileEntry notMd, of out] later
          show ?thesis by simp
        qed
      next
        case (DirEntry n listing)
        from run False DirEntry obtain acc2 where
          sub: "getAllMarkdownFiles (pathJoin dir (entryName entry)) listing acc = Inr acc2"
          and cont: "walkEntries dir rest acc2 = Inr out"
          by (auto split: sum.splits)
        from "4.IH"(4) [OF refl False DirEntry, of acc2] sub DirEntry
        obtain es new1 where l: "listing = Some es" and f': "acc2 = acc @ new1"
          and d1: "\<forall>p\<in>set new1. discovered (pathJoin dir n) es p" by auto
        from "4.IH"(5) [OF refl False DirEntry sub, of out] cont
        obtain new2 where o: "out = acc2 @ new2" and d2: "\<forall>p\<in>set new2. discovered dir rest p"
          by auto
        have "\<forall>p\<in>set (new1 @ new2). discovered dir (entry # rest) p"
          using d1 d2 discovered_mono [of dir rest _ "entry # rest"]
            discovered_below [of n dir es _ rest] False DirEntry l by auto
        with f' o show ?thesis by (intro exI [of _ "new1 @ new2"]) simp
      next
        case (OtherEntry n)
        with run False "4.IH"(6) [OF refl False OtherEntry, of out] later
        show ?thesis by simp
      qed
    qed
  qed
qed

text \<open>
  C5. Every path that discovery returns is the root joined with a chain of entry
  names that leads to a regular file of the tree; the file's name ends in \<open>.md\<close>,
  and no name of the chain is \<open>dist\<close>, is \<open>node_modules\<close> or starts with a dot.
\<close>

theorem discovered_files_are_markdown:
  assumes "getAllMarkdownFiles root listing [] = Inr found" and "p \<in> set found"
  shows "\<exists>entries names. listing = Some entries \<and> names \<noteq> [] \<and>
           p = foldl pathJoin root names \<and> endsWith (last names) ''.md'' \<and>
           (\<forall>n\<in>set names. n \<noteq> ''dist'' \<and> n \<noteq> ''node_modules'' \<and> \<not> startsWith n ''.'') \<and>
           fileAt entries names"
proof -
  from walk_result(1) [of root listing "[]" found] assms(1)
  obtain es new where "listing = Some es" "found = [] @ new" "\<forall>q\<in>set new. discovered root es q"
    by blast
  with assms(2) have "listing = Some es" "discovered root es p" by simp_all
  then show ?thesis unfolding discovered_def by blast
qed

theorem discovered_files_witness:
  "getAllMarkdownFiles ''/home/u/notes'' (Some mixedTree) []
     = Inr [''/home/u/notes/x/y/z.md'', ''/home/u/notes/index.md''] \<and>
   (\<exists>entries names. Some mixedTree = Some entries \<and> names \<noteq> [] \<and>
      ''/home/u/notes/x/y/z.md'' = foldl pathJoin ''/home/u/notes'' names \<and>
      endsWith (last names) ''.md'' \<and>
      (\<forall>n\<in>set names. n \<noteq> ''dist'' \<and> n \<noteq> ''node_modules'' \<and> \<not> startsWith n ''.'') \<and>
      fileAt entries names)"
proof -
  have run: "getAllMarkdownFiles ''/home/u/notes'' (Some mixedTree) []
     = Inr [''/home/u/notes/x/y/z.md'', ''/home/u/notes/index.md'']"
    by (simp add: mixedTree_def skipped_def startsWith_def endsWith_def pathJoin_def)
  from discovered_files_are_markdown [OF run, of "''/home/u/notes/x/y/z.md''"] run
  show ?thesis by simp
qed

section \<open>The title of a page\<close>

lemma atLineEnd_dropWhile: "atLineEnd (dropWhile (\<lambda>c. \<not> isLineTerminator c) rest)"
  by (induction rest) (auto simp: atLineEnd_def)

lemma captureLine_eq:
  "captureLine rest =
     (if takeWhile (\<lambda>c. \<not> isLineTerminator c) rest \<noteq> []
      then Some (takeWhile (\<lambda>c. \<not> isLineTerminator c) rest) else None)"
  using atLineEnd_dropWhile [of rest]
  by (simp add: captureLine_def Let_def dropWhile_eq_drop)

lemma takeWhile_line:
  assumes "\<forall>c\<in>set cap. \<not> isLineTerminator c" and "atLineEnd post"
  shows "takeWhile (\<lambda>c. \<not> isLineTerminator c) (cap @ post) = cap"
proof -
  have "takeWhile (\<lambda>c. \<not> isLineTerminator c) post = []"
    using assms(2) by (cases post) (auto simp: atLineEnd_def)
  with assms(1) show ?thesis by (simp add: takeWhile_append2)
qed

lemma captureLine_Some_iff:
  "captureLine rest = Some cap \<longleftrightarrow>
     (\<exists>post. rest = cap @ post \<and> cap \<noteq> [] \<and> (\<forall>c\<in>set cap. \<not> isLineTerminator c) \<and> atLineEnd post)"
proof
  assume "captureLine rest = Some cap"
  then have cap: "cap = takeWhile (\<lambda>c. \<not> isLineTerminator c) rest" "cap \<noteq> []"
    by (auto simp: captureLine_eq split: if_splits)
  have "rest = cap @ dropWhile (\<lambda>c. \<not> isLineTerminator c) rest" using cap(1) by simp
  moreover have "\<forall>c\<in>set cap. \<not> isLineTerminator c" using cap(1) by (auto dest: set_takeWhileD)
  ultimately show "\<exists>post. rest = cap @ post \<and> cap \<noteq> [] \<and> (\<forall>c\<in>set cap. \<not> isLineTerminator c) \<and> atLineEnd post"
    using cap(2) atLineEnd_dropWhile [of rest] by blast
next
  assume "\<exists>post. rest = cap @ post \<and> cap \<noteq> [] \<and> (\<forall>c\<in>set cap. \<not> isLineTerminator c) \<and> atLineEnd post"
  then obtain post where "rest = cap @ post" "cap \<noteq> []" "\<forall>c\<in>set cap. \<not> isLineTerminator c" "atLineEnd post"
    by blast
  then show "captureLine rest = Some cap"
    using takeWhile_line [of cap post] by (simp add: captureLine_eq)
qed

lemma spacesThenCapture_Some:
  "spacesThenCapture k rest = Some cap \<Longrightarrow>
     \<exists>j. 1 \<le> j \<and> j \<le> k \<and> captureLine (drop j rest) = Some cap \<and>
         (\<forall>i. j < i \<and> i \<le> k \<longrightarrow> captureLine (drop i rest) = None)"
proof (induction k)
  case 0
  then show ?case by simp
next
  case (Suc k)
  show ?case
  proof (cases "captureLine (drop (Suc k) rest)")
    case None
    with Suc.prems have "spacesThenCapture k rest = Some cap" by simp
    from Suc.IH [OF this] obtain j where j: "1 \<le> j" "j \<le> k" "captureLine (drop j rest) = Some cap"
      "\<forall>i. j < i \<and> i \<le> k \<longrightarrow> captureLine (drop i rest) = None" by blast
    have "\<forall>i. j < i \<and> i \<le> Suc k \<longrightarrow> captureLine (drop i rest) = None"
      using j(4) None by (auto simp: le_Suc_eq)
    with j(1-3) show ?thesis by (intro exI [of _ j]) simp
  next
    case (Some c)
    with Suc.prems have "c = cap" by simp
    with Some have "captureLine (drop (Suc k) rest) = Some cap" by simp
    moreover have "\<forall>i. Suc k < i \<and> i \<le> Suc k \<longrightarrow> captureLine (drop i rest) = None"
      by auto
    moreover have "1 \<le> Suc k" "Suc k \<le> Suc k" by simp_all
    ultimately show ?thesis by blast
  qed
qed

lemma spacesThenCapture_None:
  "spacesThenCapture k rest = None \<Longrightarrow> 1 \<le> j \<Longrightarrow> j \<le> k \<Longrightarrow> captureLine (drop j rest) = None"
  by (induction k) (auto simp: le_Suc_eq split: option.splits)

lemma spaces_prefix:
  assumes "\<forall>c\<in>set ws. isSpace c"
  shows "length ws \<le> length (takeWhile isSpace (ws @ r))"
  using assms by (simp add: takeWhile_append2)

lemma take_spaces:
  assumes "j \<le> length (takeWhile isSpace rest)"
  shows "\<forall>c\<in>set (take j rest). isSpace c"
proof -
  have "take j rest = take j (takeWhile isSpace rest @ dropWhile isSpace rest)" by simp
  also have "\<dots> = take j (takeWhile isSpace rest)" using assms by (simp del: takeWhile_dropWhile_id)
  finally have "set (take j rest) \<subseteq> set (takeWhile isSpace rest)" by (simp add: set_take_subset)
  then show ?thesis by (auto dest: set_takeWhileD)
qed

lemma lineMatch_capture:
  "lineMatch rest ws cap post \<Longrightarrow>
     1 \<le> length ws \<and> length ws \<le> length (takeWhile isSpace rest) \<and>
     captureLine (drop (length ws) rest) = Some cap"
  unfolding lineMatch_def captureLine_Some_iff
  using spaces_prefix [of ws "cap @ post"] by (cases ws) auto

lemma capture_lineMatch:
  assumes "1 \<le> j" and "j \<le> length (takeWhile isSpace rest)"
    and "captureLine (drop j rest) = Some cap"
  shows "\<exists>post. lineMatch rest (take j rest) cap post \<and> length (take j rest) = j"
proof -
  from assms(3) obtain post where post: "drop j rest = cap @ post" "cap \<noteq> []"
    "\<forall>c\<in>set cap. \<not> isLineTerminator c" "atLineEnd post"
    unfolding captureLine_Some_iff by blast
  have len: "j \<le> length rest"
    using assms(2) length_takeWhile_le [of isSpace rest] by simp
  have "rest = take j rest @ cap @ post" using post(1) by (metis append_take_drop_id)
  moreover have "take j rest \<noteq> []" using assms(1) len by auto
  moreover have "\<forall>c\<in>set (take j rest). isSpace c" by (rule take_spaces [OF assms(2)])
  ultimately have "lineMatch rest (take j rest) cap post"
    using post(2-4) unfolding lineMatch_def by blast
  with len show ?thesis by auto
qed

lemma afterHash_Some:
  assumes "afterHash rest = Some cap"
  shows "\<exists>ws post. lineMatch rest ws cap post \<and>
           (\<forall>ws' cap' post'. lineMatch rest ws' cap' post' \<longrightarrow> length ws' \<le> length ws)"
proof -
  let ?n = "length (takeWhile isSpace rest)"
  from assms spacesThenCapture_Some [of ?n rest cap]
  obtain j where j: "1 \<le> j" "j \<le> ?n" "captureLine (drop j rest) = Some cap"
    "\<forall>i. j < i \<and> i \<le> ?n \<longrightarrow> captureLine (drop i rest) = None"
    unfolding afterHash_def by blast
  from capture_lineMatch [OF j(1-3)] obtain post where
    m: "lineMatch rest (take j rest) cap post" and len: "length (take j rest) = j" by blast
  have "length ws' \<le> j" if "lineMatch rest ws' cap' post'" for ws' cap' post'
  proof (rule ccontr)
    assume "\<not> length ws' \<le> j"
    with lineMatch_capture [OF that] j(4) show False by auto
  qed
  with m len show ?thesis by (intro exI [of _ "take j rest"] exI [of _ post]) auto
qed

lemma afterHash_None:
  assumes "afterHash rest = None"
  shows "\<not> lineMatch rest ws cap post"
proof
  assume "lineMatch rest ws cap post"
  from lineMatch_capture [OF this] assms
    spacesThenCapture_None [of "length (takeWhile isSpace rest)" rest "length ws"]
  show False unfolding afterHash_def by auto
qed


lemma h1MatchFrom_Nil: "\<not> h1MatchFrom b [] pre ws cap post"
  by (simp add: h1MatchFrom_def)

lemma h1MatchFrom_Cons:
  "h1MatchFrom b (c # cs) pre ws cap post \<longleftrightarrow>
     (pre = [] \<and> b \<and> c = ''#'' \<and> lineMatch cs ws cap post) \<or>
     (\<exists>pre'. pre = c # pre' \<and> h1MatchFrom (isLineTerminator c) cs pre' ws cap post)"
proof (cases pre)
  case Nil
  then show ?thesis by (auto simp: h1MatchFrom_def lineStart_def)
next
  case (Cons x pre')
  then show ?thesis by (auto simp: h1MatchFrom_def lineStart_def)
qed

lemma scanH1_None: "scanH1 b s = None \<Longrightarrow> \<not> h1MatchFrom b s pre ws cap post"
proof (induction s arbitrary: b pre)
  case Nil
  then show ?case by (simp add: h1MatchFrom_Nil)
next
  case (Cons c cs)
  from Cons.prems have later: "scanH1 (isLineTerminator c) cs = None"
    by (auto split: if_splits option.splits)
  from Cons.prems have here: "b \<and> c = ''#'' \<longrightarrow> afterHash cs = None"
    by (auto split: if_splits option.splits)
  show ?case
    unfolding h1MatchFrom_Cons
    using Cons.IH [OF later] here afterHash_None [of cs ws cap post] by auto
qed

lemma scanH1_Some:
  "scanH1 b s = Some cap \<Longrightarrow>
     \<exists>pre ws post. h1MatchFrom b s pre ws cap post \<and>
       (\<forall>pre' ws' cap' post'. h1MatchFrom b s pre' ws' cap' post' \<longrightarrow>
          length pre \<le> length pre' \<and> (length pre' = length pre \<longrightarrow> length ws' \<le> length ws))"
proof (induction s arbitrary: b)
  case Nil
  then show ?case by simp
next
  case (Cons c cs)
  show ?case
  proof (cases "b \<and> c = ''#'' \<and> afterHash cs \<noteq> None")
    case True
    with Cons.prems have found: "afterHash cs = Some cap" by auto
    from afterHash_Some [OF found] obtain ws post where
      m: "lineMatch cs ws cap post"
      and longest: "\<forall>ws' cap' post'. lineMatch cs ws' cap' post' \<longrightarrow> length ws' \<le> length ws"
      by blast
    have "h1MatchFrom b (c # cs) [] ws cap post"
      unfolding h1MatchFrom_Cons using True m by simp
    moreover have "\<forall>pre' ws' cap' post'. h1MatchFrom b (c # cs) pre' ws' cap' post' \<longrightarrow>
          length [] \<le> length pre' \<and> (length pre' = length [] \<longrightarrow> length ws' \<le> length ws)"
      unfolding h1MatchFrom_Cons using longest by auto
    ultimately show ?thesis by blast
  next
    case False
    with Cons.prems have later: "scanH1 (isLineTerminator c) cs = Some cap"
      by (auto split: if_splits option.splits)
    from False have here: "\<not> (b \<and> c = ''#'' \<and> lineMatch cs ws' cap' post')" for ws' cap' post'
      using afterHash_None [of cs ws' cap' post'] by auto
    from Cons.IH [OF later] obtain pre ws post where
      m: "h1MatchFrom (isLineTerminator c) cs pre ws cap post"
      and first: "\<forall>pre' ws' cap' post'. h1MatchFrom (isLineTerminator c) cs pre' ws' cap' post' \<longrightarrow>
          length pre \<le> length pre' \<and> (length pre' = length pre \<longrightarrow> length ws' \<le> length ws)"
      by blast
    have "h1MatchFrom b (c # cs) (c # pre) ws cap post"
      unfolding h1MatchFrom_Cons using m by simp
    moreover have "length (c # pre) \<le> length pre' \<and>
          (length pre' = length (c # pre) \<longrightarrow> length ws' \<le> length ws)"
      if other: "h1MatchFrom b (c # cs) pre' ws' cap' post'" for pre' ws' cap' post'
    proof -
      from other here obtain p where
        p: "pre' = c # p" "h1MatchFrom (isLineTerminator c) cs p ws' cap' post'"
        unfolding h1MatchFrom_Cons by blast
      from first p(2)
      have "length pre \<le> length p \<and> (length p = length pre \<longrightarrow> length ws' \<le> length ws)"
        by blast
      with p(1) show ?thesis by simp
    qed
    ultimately show ?thesis by blast
  qed
qed

lemma split_append:
  "split sep (a @ sep # b) = split sep a @ split sep b"
proof (induction a)
  case Nil
  then show ?case by simp
next
  case (Cons c a)
  obtain seg segs where s: "split sep a = seg # segs"
    using split_nonempty [of sep a] by (cases "split sep a") auto
  with Cons show ?case by simp
qed

lemma split_no_separator: "sep \<notin> set b \<Longrightarrow> split sep b = [b]"
  by (induction b) auto

lemma basename_md:
  assumes "stem \<noteq> []" and "CHR ''/'' \<notin> set stem"
  shows "basename (dir @ ''/'' @ stem @ ''.md'') ''.md'' = stem"
proof -
  have "split (CHR ''/'') (dir @ CHR ''/'' # (stem @ ''.md''))
          = split (CHR ''/'') dir @ [stem @ ''.md'']"
    using assms(2) by (simp add: split_append split_no_separator)
  then have "segments (dir @ ''/'' @ stem @ ''.md'')
          = filter (\<lambda>s. s \<noteq> []) (split (CHR ''/'') dir) @ [stem @ ''.md'']"
    by (simp add: segments_def)
  moreover have "dir @ ''/'' @ stem @ ''.md'' \<noteq> ''.md''"
  proof
    assume "dir @ ''/'' @ stem @ ''.md'' = ''.md''"
    then have "length (dir @ ''/'' @ stem @ ''.md'') = length ''.md''" by (rule arg_cong)
    then show False by simp
  qed
  ultimately show ?thesis
    using assms(1) by (simp add: basename_def endsWith_def Let_def)
qed

lemma concat_characters: "concat (characters s) = s"
  by (induction s rule: characters.induct) simp_all

text \<open>
  C4. When the pattern matches somewhere in the source text, the title is the text
  of the group in the first match: the match that starts leftmost, on whatever line,
  and there takes the longest white space, which fixes the group. When the pattern
  matches nowhere, the title is \<open>basename\<close> of the source path, which for a file
  \<open>stem.md\<close> in a directory is \<open>stem\<close>. The characters among which the pattern is
  matched make up the source text.
\<close>

theorem title_is_first_heading:
  "(case h1Match src of
      Some ttl \<Rightarrow>
        pageTitle mdPath src = ttl \<and>
        (\<exists>pre ws cap post. ttl = concat cap \<and> h1MatchAt (characters src) pre ws cap post \<and>
           (\<forall>pre' ws' cap' post'. h1MatchAt (characters src) pre' ws' cap' post' \<longrightarrow>
              length pre \<le> length pre' \<and>
              (length pre' = length pre \<longrightarrow> length ws' \<le> length ws)))
    | None \<Rightarrow>
        pageTitle mdPath src = basename mdPath ''.md'' \<and>
        (\<forall>pre ws cap post. \<not> h1MatchAt (characters src) pre ws cap post)) \<and>
   concat (characters src) = src \<and>
   (\<forall>dir stem. stem \<noteq> [] \<and> CHR ''/'' \<notin> set stem \<longrightarrow>
      basename (dir @ ''/'' @ stem @ ''.md'') ''.md'' = stem)"
proof (intro conjI allI impI)
  show "case h1Match src of
      Some ttl \<Rightarrow>
        pageTitle mdPath src = ttl \<and>
        (\<exists>pre ws cap post. ttl = concat cap \<and> h1MatchAt (characters src) pre ws cap post \<and>
           (\<forall>pre' ws' cap' post'. h1MatchAt (characters src) pre' ws' cap' post' \<longrightarrow>
              length pre \<le> length pre' \<and>
              (length pre' = length pre \<longrightarrow> length ws' \<le> length ws)))
    | None \<Rightarrow>
        pageTitle mdPath src = basename mdPath ''.md'' \<and>
        (\<forall>pre ws cap post. \<not> h1MatchAt (characters src) pre ws cap post)"
  proof (cases "scanH1 True (characters src)")
    case None
    then have "\<not> h1MatchAt (characters src) pre ws cap post" for pre ws cap post
      unfolding h1MatchAt_def by (rule scanH1_None)
    with None show ?thesis by (simp add: pageTitle_def h1Match_def)
  next
    case (Some cap)
    from scanH1_Some [OF Some] obtain pre ws post where
      "h1MatchAt (characters src) pre ws cap post"
      "\<forall>pre' ws' cap' post'. h1MatchAt (characters src) pre' ws' cap' post' \<longrightarrow>
          length pre \<le> length pre' \<and> (length pre' = length pre \<longrightarrow> length ws' \<le> length ws)"
      unfolding h1MatchAt_def by blast
    then have "\<exists>pre ws cap' post. concat cap = concat cap' \<and>
        h1MatchAt (characters src) pre ws cap' post \<and>
        (\<forall>pre' ws' cap'' post'. h1MatchAt (characters src) pre' ws' cap'' post' \<longrightarrow>
          length pre \<le> length pre' \<and> (length pre' = length pre \<longrightarrow> length ws' \<le> length ws))"
      by blast
    with Some show ?thesis by (simp add: pageTitle_def h1Match_def)
  qed
next
  show "concat (characters src) = src" by (rule concat_characters)
next
  fix dir stem :: string
  assume "stem \<noteq> [] \<and> CHR ''/'' \<notin> set stem"
  then show "basename (dir @ ''/'' @ stem @ ''.md'') ''.md'' = stem"
    using basename_md by blast
qed

text \<open>Runs of the matcher: a heading on the first line, a heading on a later line, a
  text without a top-level heading, a no-break space (U+00A0) after the \<open>#\<close>, and
  a line separator (U+2028) that ends the heading.\<close>

lemmas matcher_defs =
  h1Match_def afterHash_def isSpace_def isLineTerminator_def captureLine_def
  atLineEnd_def leadLength_def nl_def Let_def

lemma hello_match: "h1Match (''# Hello World'' @ nl @ ''Body text'') = Some ''Hello World''"
  by (simp add: matcher_defs)

lemma second_line_match:
  "h1Match (''intro'' @ nl @ ''# Late'' @ nl) = Some ''Late''"
  by (simp add: matcher_defs)

lemma no_heading: "h1Match (''## Sub'' @ nl @ ''text #'') = None"
  by (simp add: matcher_defs)

lemma no_break_space_match:
  "h1Match (''#'' @ [CHR 0xC2, CHR 0xA0] @ ''Title'') = Some ''Title''"
  by (simp add: matcher_defs)

lemma line_separator_match:
  "h1Match (''# A'' @ [CHR 0xE2, CHR 0x80, CHR 0xA8] @ ''B'') = Some ''A''"
  by (simp add: matcher_defs)

theorem title_of_hello_world:
  "pageTitle ''/home/u/notes/x/y/z.md'' (''# Hello World'' @ nl @ ''Body text'') = ''Hello World'' \<and>
   (\<exists>pre ws cap post. ''Hello World'' = concat cap \<and>
      h1MatchAt (characters (''# Hello World'' @ nl @ ''Body text'')) pre ws cap post) \<and>
   pageTitle ''/home/u/notes/x/y/z.md'' (''#'' @ [CHR 0xC2, CHR 0xA0] @ ''Title'') = ''Title'' \<and>
   pageTitle ''/home/u/notes/x/y/z.md'' (''## Sub'' @ nl @ ''text #'') = ''z''"
proof -
  from title_is_first_heading [where src = "''# Hello World'' @ nl @ ''Body text''"
      and mdPath = "''/home/u/notes/x/y/z.md''"]
  have "pageTitle ''/home/u/notes/x/y/z.md'' (''# Hello World'' @ nl @ ''Body text'') = ''Hello World'' \<and>
   (\<exists>pre ws cap post. ''Hello World'' = concat cap \<and>
      h1MatchAt (characters (''# Hello World'' @ nl @ ''Body text'')) pre ws cap post)"
    unfolding hello_match by auto
  moreover
  from title_is_first_heading [where src = "''#'' @ [CHR 0xC2, CHR 0xA0] @ ''Title''"
      and mdPath = "''/home/u/notes/x/y/z.md''"]
  have "pageTitle ''/home/u/notes/x/y/z.md'' (''#'' @ [CHR 0xC2, CHR 0xA0] @ ''Title'') = ''Title''"
    unfolding no_break_space_match by auto
  moreover
  from title_is_first_heading [where src = "''## Sub'' @ nl @ ''text #''"
      and mdPath = "''/home/u/notes/x/y/z.md''"]
  have "pageTitle ''/home/u/notes/x/y/z.md'' (''## Sub'' @ nl @ ''text #'')
          = basename ''/home/u/notes/x/y/z.md'' ''.md''"
    unfolding no_heading by auto
  moreover have "basename ''/home/u/notes/x/y/z.md'' ''.md'' = ''z''"
    by (simp add: basename_def segments_def endsWith_def Let_def)
  ultimately show ?thesis by simp
qed

text \<open>
  White space includes the line terminators, so a \<open>#\<close> alone on its line takes the
  next line as the group.
\<close>

lemma heading_over_two_lines: "h1Match (''#'' @ nl @ ''Body text'') = Some ''Body text''"
  by (simp add: matcher_defs)

section \<open>Rendering of directory nodes\<close>

lemma nodeCompare_le:
  "nodeCompare lc a b \<le> 0 \<longleftrightarrow>
     (page a = None \<and> page b \<noteq> None) \<or>
     ((page a = None \<longleftrightarrow> page b = None) \<and> lc (name a) (name b) \<le> 0)"
  by (auto simp: nodeCompare_def Let_def)

lemma consistent_nodeCompare:
  assumes "consistent lc"
  shows "consistent (nodeCompare lc)"
  unfolding consistent_def
proof (intro conjI allI impI)
  fix a b
  have "sgn (lc (name a) (name b)) = - sgn (lc (name b) (name a))"
    using assms unfolding consistent_def by blast
  then show "sgn (nodeCompare lc a b) = - sgn (nodeCompare lc b a)"
    by (simp add: nodeCompare_def Let_def)
next
  fix a b c
  assume "nodeCompare lc a b \<le> 0" "nodeCompare lc b c \<le> 0"
  then show "nodeCompare lc a c \<le> 0"
    unfolding nodeCompare_le using consistentD(1) [OF assms, of "name a" "name b" "name c"]
    by auto
qed

text \<open>
  A node without a page is rendered as a folder item around its children, which are
  first sorted: directories before files, and by name within each kind. This is the
  sort that the children of the root do not get.
\<close>

lemma rendered_children_sorted:
  assumes "consistent lc" and "page node = None"
  shows "renderNode lc node =
           folderItem node (concat (map (renderNode lc) (sortBy (nodeCompare lc) (children node))))"
    and "sorted_wrt (\<lambda>a b. (page a = None \<and> page b \<noteq> None) \<or>
                        ((page a = None \<longleftrightarrow> page b = None) \<and> lc (name a) (name b) \<le> 0))
           (sortBy (nodeCompare lc) (children node))"
proof -
  show "renderNode lc node =
           folderItem node (concat (map (renderNode lc) (sortBy (nodeCompare lc) (children node))))"
    using assms(2) by (simp add: renderNode.simps [of lc node])
  have "sorted_wrt (\<lambda>a b. nodeCompare lc a b \<le> 0) (sortBy (nodeCompare lc) (children node))"
    by (rule sorted_sortBy [OF consistent_nodeCompare [OF assms(1)]])
  then show "sorted_wrt (\<lambda>a b. (page a = None \<and> page b \<noteq> None) \<or>
                        ((page a = None \<longleftrightarrow> page b = None) \<and> lc (name a) (name b) \<le> 0))
           (sortBy (nodeCompare lc) (children node))"
    by (simp add: nodeCompare_le)
qed

end
